theory Spec2Isabelle
  imports Complex_Main
begin

section \<open>Strings\<close>

text \<open>
  A JavaScript string is modelled as a \<^typ>\<open>string\<close>: a list of code units, each below
  256 (the Latin-1 block of UTF-16). The string methods used by
  \<^verbatim>\<open>SidebarLayout.tsx\<close> are given on that block as ECMAScript defines them.
\<close>

text \<open>\<^verbatim>\<open>String.prototype.trim\<close> strips white space and line terminators from both ends:
  TAB, LF, VT, FF, CR, SP and NBSP are the ones below 256.\<close>

definition isWhiteSpace :: "char \<Rightarrow> bool" where
  "isWhiteSpace c =
     (c = CHR 0x09 \<or> c = CHR 0x0A \<or> c = CHR 0x0B \<or> c = CHR 0x0C \<or> c = CHR 0x0D \<or>
      c = CHR 0x20 \<or> c = CHR 0xA0)"

definition trim :: "string \<Rightarrow> string" where
  "trim s = rev (dropWhile isWhiteSpace (rev (dropWhile isWhiteSpace s)))"

text \<open>\<^verbatim>\<open>String.prototype.toLowerCase\<close>: the upper-case letters below 256 are A to Z and
  the accented capitals 0xC0 to 0xDE without the multiplication sign 0xD7; each one has its
  lower-case letter 32 code units later.\<close>

definition isUpperCase :: "char \<Rightarrow> bool" where
  "isUpperCase c =
     (let n = (of_char c :: nat)
      in (65 \<le> n \<and> n \<le> 90) \<or> (192 \<le> n \<and> n \<le> 222 \<and> n \<noteq> 215))"

definition lowerChar :: "char \<Rightarrow> char" where
  "lowerChar c = (if isUpperCase c then char_of ((of_char c :: nat) + 32) else c)"

definition toLowerCase :: "string \<Rightarrow> string" where
  "toLowerCase s = map lowerChar s"

text \<open>\<^verbatim>\<open>String.prototype.startsWith\<close> and \<^verbatim>\<open>String.prototype.includes\<close>, both from
  position 0.\<close>

fun startsWith :: "string \<Rightarrow> string \<Rightarrow> bool" where
  "startsWith s [] = True"
| "startsWith [] (c # cs) = False"
| "startsWith (d # ds) (c # cs) = (d = c \<and> startsWith ds cs)"

fun includes_str :: "string \<Rightarrow> string \<Rightarrow> bool" where
  "includes_str [] f = startsWith [] f"
| "includes_str (d # ds) f = (startsWith (d # ds) f \<or> includes_str ds f)"

text \<open>\<^verbatim>\<open>Array.prototype.join\<close> on an array of strings.\<close>

fun join :: "string \<Rightarrow> string list \<Rightarrow> string" where
  "join sep [] = []"
| "join sep [x] = x"
| "join sep (x # y # ys) = x @ sep @ join sep (y # ys)"

section \<open>The helpers taken from radash\<close>

text \<open>
  \<^verbatim>\<open>sift\<close>, \<^verbatim>\<open>unique\<close> and \<^verbatim>\<open>objectify\<close> are imported from the radash package, which is
  not part of the repository. They are modelled after the package's implementation:
  \<^verbatim>\<open>sift\<close> keeps the truthy items of a list; \<^verbatim>\<open>unique\<close> collects the items into a plain
  object, item by item under the item as key unless the object already has a truthy value
  there, and returns \<^verbatim>\<open>Object.values\<close> of that object; \<^verbatim>\<open>objectify\<close> builds a plain object
  by assigning, item after item, the item's value to the item's key.

  An optional string field is a \<^typ>\<open>string option\<close>, \<^const>\<open>None\<close> standing for
  \<^verbatim>\<open>undefined\<close>. The falsy values of that type are \<^verbatim>\<open>undefined\<close> and the empty string.
\<close>

fun truthy :: "string option \<Rightarrow> bool" where
  "truthy None = False"
| "truthy (Some s) = (s \<noteq> [])"

text \<open>The nullish coalescing operator \<^verbatim>\<open>v ?? d\<close>.\<close>

fun nullish :: "'a option \<Rightarrow> 'a \<Rightarrow> 'a" where
  "nullish None d = d"
| "nullish (Some v) d = v"

text \<open>
  The errors a function of this file can throw: a \<^verbatim>\<open>TypeError\<close> (a property read on
  \<^verbatim>\<open>undefined\<close> or \<^verbatim>\<open>null\<close>, \<^verbatim>\<open>getComputedStyle\<close> on something that is no element)
  and the \<^verbatim>\<open>SyntaxError\<close> of \<^verbatim>\<open>new RegExp\<close> on an invalid pattern.
\<close>

datatype error = TypeError | SyntaxError

text \<open>\<^verbatim>\<open>Array.prototype.map\<close> with a callback \<^verbatim>\<open>(item, index)\<close> that may throw: the first
  error ends the loop. The index of the first item is a parameter.\<close>

fun array_map :: "('a \<Rightarrow> nat \<Rightarrow> error + 'b) \<Rightarrow> nat \<Rightarrow> 'a list \<Rightarrow> error + 'b list" where
  "array_map cb i [] = Inr []"
| "array_map cb i (x # xs) =
     (case cb x i of
        Inl e \<Rightarrow> Inl e
      | Inr y \<Rightarrow> (case array_map cb (Suc i) xs of Inl e \<Rightarrow> Inl e | Inr ys \<Rightarrow> Inr (y # ys)))"

fun sift :: "string option list \<Rightarrow> string list" where
  "sift [] = []"
| "sift (None # xs) = sift xs"
| "sift (Some s # xs) = (if s = [] then sift xs else s # sift xs)"

text \<open>
  A plain object inherits the members of \<^verbatim>\<open>Object.prototype\<close>. Read on the empty object,
  each of these twelve names gives a function, or the prototype itself for \<^verbatim>\<open>__proto__\<close>:
  a truthy value.
\<close>

definition isPrototypeKey :: "string \<Rightarrow> bool" where
  "isPrototypeKey s =
     (s \<in> set [''constructor'', ''__defineGetter__'', ''__defineSetter__'', ''hasOwnProperty'',
                ''__lookupGetter__'', ''__lookupSetter__'', ''isPrototypeOf'',
                ''propertyIsEnumerable'', ''toString'', ''valueOf'', ''__proto__'',
                ''toLocaleString''])"

text \<open>
  The own keys of an object are listed with the array indices first, in ascending
  numeric order, and the other strings after them, in the order of their creation. An
  array index is the canonical decimal numeral of an integer from 0 to 4294967294.
\<close>

definition isDigit :: "char \<Rightarrow> bool" where
  "isDigit c = (48 \<le> (of_char c :: int) \<and> (of_char c :: int) \<le> 57)"

definition decimal :: "string \<Rightarrow> int" where
  "decimal s = foldl (\<lambda>a c. 10 * a + ((of_char c :: int) - 48)) 0 s"

definition isArrayIndex :: "string \<Rightarrow> bool" where
  "isArrayIndex s =
     (if s \<noteq> [] \<and> list_all isDigit s \<and> (s = ''0'' \<or> hd s \<noteq> CHR ''0'')
      then decimal s < 4294967295 else False)"

definition ownKeys :: "string list \<Rightarrow> string list" where
  "ownKeys created =
     sort_key decimal (filter isArrayIndex created) @ filter (\<lambda>k. \<not> isArrayIndex k) created"

text \<open>
  The loop of \<^verbatim>\<open>unique\<close> on a list of strings, with the keys created so far: an item is
  skipped when the object has a truthy value under it, which is so for the items stored
  before (the item itself, a truthy string here, since the list comes from \<^verbatim>\<open>sift\<close>) and for
  the inherited names. \<^verbatim>\<open>Object.values\<close> then lists the stored items in the order of their
  keys.
\<close>

fun unique_acc :: "string list \<Rightarrow> string list \<Rightarrow> string list" where
  "unique_acc acc [] = acc"
| "unique_acc acc (x # xs) =
     (if isPrototypeKey x \<or> x \<in> set acc then unique_acc acc xs else unique_acc (acc @ [x]) xs)"

definition unique :: "string list \<Rightarrow> string list" where
  "unique xs = ownKeys (unique_acc [] xs)"

text \<open>The object that \<^verbatim>\<open>objectify\<close> builds is kept as a map. The file reads it only at keys
  it was built from, where the read gives the value assigned last.\<close>

definition objectify :: "'a list \<Rightarrow> ('a \<Rightarrow> 'k) \<Rightarrow> ('a \<Rightarrow> 'v) \<Rightarrow> ('k \<rightharpoonup> 'v)" where
  "objectify array getKey getValue =
     foldl (\<lambda>acc item. acc(getKey item \<mapsto> getValue item)) Map.empty array"

section \<open>Pages, the navigation map and the site configuration\<close>

text \<open>
  The types \<^verbatim>\<open>Nav\<close> (of \<^verbatim>\<open>src/types\<close>) and the configuration object (of \<^verbatim>\<open>src/config\<close>)
  are declared outside \<^verbatim>\<open>SidebarLayout.tsx\<close>. The records below hold the fields that this
  file reads, optional wherever the file guards the access (\<^verbatim>\<open>sift\<close>, \<^verbatim>\<open>?.\<close>, \<^verbatim>\<open>??\<close>, a
  truthiness test). The configuration is a parameter of every function that reads it.
\<close>

record meta =
  title :: "string option"
  description :: "string option"
  group :: "string option"
  published :: "string option"
  match :: "string option"

record page =
  href :: string
  meta :: meta

text \<open>A \<^verbatim>\<open>Nav\<close> is an object whose values are arrays of pages; \<^verbatim>\<open>Object.values\<close> lists the
  values in the object's key order, so the object is kept as the list of its entries.\<close>

type_synonym Nav = "(string \<times> page list) list"

datatype icon = book | code | chat

record link =
  url :: "string option"
  label :: string
  icon :: "icon option"

record sidebar =
  order :: "string list option"
  links :: "link option list option"

record config =
  sidebar :: "sidebar option"
  algolia :: bool

section \<open>The function \<^verbatim>\<open>filtered\<close> of \<^verbatim>\<open>Nav\<close>\<close>

record filtered_nav =
  pages :: "string \<rightharpoonup> page list"
  groups :: "string list"

text \<open>The predicate of \<^verbatim>\<open>allPages.filter\<close>, with \<open>f\<close> the trimmed, lower-cased filter.\<close>

definition matchesPage :: "string \<Rightarrow> page \<Rightarrow> bool" where
  "matchesPage f p =
     includes_str (toLowerCase (join '' '' (sift [title (meta p), description (meta p)]))) f"

text \<open>\<^verbatim>\<open>config.sidebar?.order\<close>.\<close>

definition sidebar_order :: "config \<Rightarrow> string list option" where
  "sidebar_order cfg = (case sidebar cfg of None \<Rightarrow> None | Some sb \<Rightarrow> order sb)"

text \<open>\<^verbatim>\<open>Object.values(n).flat()\<close>.\<close>

definition allPages :: "Nav \<Rightarrow> page list" where
  "allPages n = concat (map snd n)"

text \<open>The constant \<^verbatim>\<open>matchPages\<close> of \<^verbatim>\<open>filtered\<close>, as a function of the filter string and the
  navigation map.\<close>

definition matchPages :: "string \<Rightarrow> Nav \<Rightarrow> page list" where
  "matchPages filter_str n =
     (let f = toLowerCase (trim filter_str)
      in filter (matchesPage f) (allPages n))"

definition filtered :: "config \<Rightarrow> string \<Rightarrow> Nav \<Rightarrow> filtered_nav" where
  "filtered cfg filter_str n =
     (let matchPages = matchPages filter_str n;
          groups =
            (case sidebar_order cfg of
               Some ord \<Rightarrow> filter (\<lambda>g. find (\<lambda>p. group (meta p) = Some g) matchPages \<noteq> None) ord
             | None \<Rightarrow> unique (sift (map (\<lambda>p. group (meta p)) matchPages)))
      in \<lparr> pages = objectify groups (\<lambda>g. g) (\<lambda>g. filter (\<lambda>p. group (meta p) = Some g) matchPages),
           groups = groups \<rparr>)"

text \<open>
  The words of the specification about \<^verbatim>\<open>filtered\<close>. A page matches a filter string when
  its title and description, the missing ones dropped, joined with a single space and
  lower-cased, contain the trimmed, lower-cased filter string.
\<close>

fun present :: "string option list \<Rightarrow> string list" where
  "present [] = []"
| "present (None # xs) = present xs"
| "present (Some s # xs) = s # present xs"

definition spec_matches :: "string \<Rightarrow> page \<Rightarrow> bool" where
  "spec_matches filter_str p =
     includes_str (toLowerCase (join '' '' (present [title (meta p), description (meta p)])))
       (toLowerCase (trim filter_str))"

text \<open>The filtered navigation contains a page when the page is recorded under one of the
  listed groups: these are the pages that \<^verbatim>\<open>Nav\<close> renders.\<close>

definition nav_contains :: "filtered_nav \<Rightarrow> page \<Rightarrow> bool" where
  "nav_contains r p =
     list_ex (\<lambda>g. case pages r g of None \<Rightarrow> False | Some ps \<Rightarrow> p \<in> set ps) (groups r)"

text \<open>
  The group of a page can be listed. When the configuration has \<^verbatim>\<open>config.sidebar.order\<close>,
  that is: the page has a group and the group is an entry of that list, whatever the
  name, the empty one included. Without that list it is: the group is a truthy name and
  not the name of a member of \<^verbatim>\<open>Object.prototype\<close>.
\<close>

definition group_listed :: "config \<Rightarrow> page \<Rightarrow> bool" where
  "group_listed cfg p =
     (case sidebar_order cfg of
        Some ord \<Rightarrow> list_ex (\<lambda>g. group (meta p) = Some g) ord
      | None \<Rightarrow> truthy (group (meta p)) \<and> \<not> isPrototypeKey (nullish (group (meta p)) []))"

text \<open>A filter string is blank when it is empty or consists of white space only.\<close>

definition blank :: "string \<Rightarrow> bool" where
  "blank s = list_all isWhiteSpace s"

text \<open>The target of a nav item by cases: the page's own \<^verbatim>\<open>href\<close> unless \<^verbatim>\<open>meta.published\<close>
  is the string \<^verbatim>\<open>false\<close>, else the \<^verbatim>\<open>fallbackHref\<close> of the layout, the empty string when
  there is none.\<close>

definition spec_link_target :: "string option \<Rightarrow> page \<Rightarrow> string" where
  "spec_link_target fallback p =
     (if published (meta p) \<noteq> Some ''false'' then href p
      else (case fallback of None \<Rightarrow> [] | Some h \<Rightarrow> h))"

section \<open>The component \<^verbatim>\<open>NavItem\<close> and the group list of \<^verbatim>\<open>Nav\<close>\<close>

record nav_item_props =
  item_key :: nat
  item_href :: string
  item_children :: "string option"
  isActive :: bool
  isPublished :: bool
  item_fallbackHref :: string

text \<open>What \<^verbatim>\<open>NavItem\<close> renders: the \<^verbatim>\<open>data-active\<close> attribute of the list item, the target
  of the link, the \<^verbatim>\<open>data-is-selected\<close> attribute and the content of the anchor.\<close>

record nav_item_view =
  li_data_active :: "string option"
  link_href :: string
  a_data_is_selected :: string
  a_children :: "string option"

definition NavItem :: "nav_item_props \<Rightarrow> nav_item_view" where
  "NavItem props =
     \<lparr> li_data_active = (if isActive props then Some ''true'' else None),
       link_href = (if isPublished props then item_href props else item_fallbackHref props),
       a_data_is_selected = (if isActive props then ''true'' else ''false''),
       a_children = item_children props \<rparr>"

text \<open>
  The callback of \<^verbatim>\<open>filteredPages.map\<close>. \<^verbatim>\<open>new RegExp(pattern)\<close> is the parameter
  \<open>regExp\<close>: \<^const>\<open>None\<close> for a pattern that is no regular expression (the constructor
  throws a \<^verbatim>\<open>SyntaxError\<close>), else the \<^verbatim>\<open>test\<close> method of the expression.
\<close>

definition navItem :: "(string \<Rightarrow> (string \<Rightarrow> bool) option) \<Rightarrow> string \<Rightarrow> string option \<Rightarrow>
    page \<Rightarrow> nat \<Rightarrow> error + nav_item_view" where
  "navItem regExp pathname fallbackHref item i =
     (case (if truthy (match (meta item))
            then (case regExp (nullish (match (meta item)) []) of
                    None \<Rightarrow> Inl SyntaxError
                  | Some test \<Rightarrow> Inr (test pathname))
            else Inr (href item = pathname)) of
        Inl e \<Rightarrow> Inl e
      | Inr active \<Rightarrow>
          Inr (NavItem \<lparr> item_key = i, item_href = href item, item_children = title (meta item),
                 isActive = active, isPublished = (published (meta item) \<noteq> Some ''false''),
                 item_fallbackHref = nullish fallbackHref [] \<rparr>))"

text \<open>The pattern of a page can be compiled: \<^verbatim>\<open>meta.match\<close> is falsy, or \<^verbatim>\<open>new RegExp\<close>
  accepts it.\<close>

definition valid_match :: "(string \<Rightarrow> (string \<Rightarrow> bool) option) \<Rightarrow> page \<Rightarrow> bool" where
  "valid_match regExp p =
     (if truthy (match (meta p)) then regExp (nullish (match (meta p)) []) \<noteq> None else True)"

text \<open>One entry of \<^verbatim>\<open>filteredNav.groups.map\<close>: the heading with the classes \<^verbatim>\<open>clsx\<close> gives
  it, and the items. Reading \<^verbatim>\<open>length\<close> of a group that \<^verbatim>\<open>filteredNav.pages\<close> does not hold
  is a \<^verbatim>\<open>TypeError\<close>.\<close>

record group_view =
  h5_class :: "string list"
  h5_children :: string
  group_items :: "nav_item_view list"

definition navGroup :: "(string \<Rightarrow> (string \<Rightarrow> bool) option) \<Rightarrow> string \<Rightarrow> string option \<Rightarrow>
    filtered_nav \<Rightarrow> string \<Rightarrow> nat \<Rightarrow> error + group_view" where
  "navGroup regExp pathname fallbackHref filteredNav grp i =
     (case pages filteredNav grp of
        None \<Rightarrow> Inl TypeError
      | Some filteredPages \<Rightarrow>
          (case array_map (navItem regExp pathname fallbackHref) 0 filteredPages of
             Inl e \<Rightarrow> Inl e
           | Inr items \<Rightarrow>
               Inr \<lparr> h5_class =
                       ''mb-8 lg:mb-3 font-semibold'' #
                       (if length filteredPages > 0 then [''text-slate-900 dark:text-slate-200''] else []) @
                       (if length filteredPages = 0 then [''text-slate-400''] else []),
                     h5_children = grp,
                     group_items = items \<rparr>))"

text \<open>The group list that \<^verbatim>\<open>Nav\<close> renders below the top level links. Every entry of the
  mapped array is an element, hence truthy, and \<^verbatim>\<open>.filter(Boolean)\<close> keeps it.\<close>

definition Nav_groups :: "config \<Rightarrow> (string \<Rightarrow> (string \<Rightarrow> bool) option) \<Rightarrow> string \<Rightarrow>
    string option \<Rightarrow> string \<Rightarrow> Nav \<Rightarrow> error + group_view list" where
  "Nav_groups cfg regExp pathname fallbackHref filter_str navigation =
     (let filteredNav = filtered cfg filter_str navigation
      in array_map (navGroup regExp pathname fallbackHref filteredNav) 0 (groups filteredNav))"

section \<open>\<^verbatim>\<open>TopLevelNav\<close> and \<^verbatim>\<open>TopLevelLink\<close>\<close>

record top_link_view =
  top_key :: nat
  top_mobile :: bool
  top_href :: string
  top_isActive :: bool
  top_className :: string
  top_icon :: icon
  top_icon_active :: bool
  top_children :: string
  top_external :: bool

text \<open>\<^verbatim>\<open>TopLevelLink\<close> renders a plain anchor when \<^verbatim>\<open>/^https?:\/\//\<close> matches the target.\<close>

definition isHttpUrl :: "string \<Rightarrow> bool" where
  "isHttpUrl h = (startsWith h ''http://'' \<or> startsWith h ''https://'')"

text \<open>
  The callback of \<^verbatim>\<open>links!.map\<close>. \<^verbatim>\<open>link!.url\<close> on a link that is \<^verbatim>\<open>null\<close> is a
  \<^verbatim>\<open>TypeError\<close>; \<^verbatim>\<open>startsWith(link!.url!)\<close> converts a missing \<^verbatim>\<open>url\<close> to the string
  \<^verbatim>\<open>undefined\<close>.
\<close>

definition topLevelLink :: "string \<Rightarrow> bool \<Rightarrow> link option \<Rightarrow> nat \<Rightarrow> error + top_link_view" where
  "topLevelLink pathname mobile lnk idx =
     (case lnk of
        None \<Rightarrow> Inl TypeError
      | Some l \<Rightarrow>
          Inr \<lparr> top_key = idx, top_mobile = mobile, top_href = nullish (url l) [],
                top_isActive = startsWith pathname (nullish (url l) []),
                top_className = ''mb-4'',
                top_icon = nullish (icon l) book,
                top_icon_active = startsWith pathname (nullish (url l) ''undefined''),
                top_children = label l,
                top_external = isHttpUrl (nullish (url l) []) \<rparr>)"

text \<open>\<^verbatim>\<open>config.sidebar?.links!.map(...)\<close>: nothing is rendered without \<^verbatim>\<open>config.sidebar\<close>;
  with a sidebar that has no \<^verbatim>\<open>links\<close>, \<^verbatim>\<open>map\<close> is read on \<^verbatim>\<open>undefined\<close>.\<close>

definition TopLevelNav :: "config \<Rightarrow> string \<Rightarrow> bool \<Rightarrow> error + top_link_view list" where
  "TopLevelNav cfg pathname mobile =
     (case sidebar cfg of
        None \<Rightarrow> Inr []
      | Some sb \<Rightarrow>
          (case links sb of
             None \<Rightarrow> Inl TypeError
           | Some ls \<Rightarrow> array_map (topLevelLink pathname mobile) 0 ls))"

section \<open>The document and \<^verbatim>\<open>nearestScrollableContainer\<close>\<close>

text \<open>
  A node of the document is a number. The record holds what the file reads of the
  document: \<^verbatim>\<open>document.body\<close>, which nodes are elements (\<^verbatim>\<open>getComputedStyle\<close> throws a
  \<^verbatim>\<open>TypeError\<close> on anything else), \<^verbatim>\<open>parentNode\<close> (\<^const>\<open>None\<close> for \<^verbatim>\<open>null\<close>), the
  \<^verbatim>\<open>host\<close> of a shadow root (\<^const>\<open>None\<close> for \<^verbatim>\<open>undefined\<close>), the computed overflow styles
  and the box metrics.
\<close>

type_synonym node = nat

record dom =
  body :: node
  isElement :: "node \<Rightarrow> bool"
  parentNode :: "node \<Rightarrow> node option"
  host :: "node \<Rightarrow> node option"
  overflowX :: "node \<Rightarrow> string"
  overflowY :: "node \<Rightarrow> string"
  clientHeight :: "node \<Rightarrow> int"
  scrollHeight :: "node \<Rightarrow> int"
  clientWidth :: "node \<Rightarrow> int"
  scrollWidth :: "node \<Rightarrow> int"
  scrollTop :: "node \<Rightarrow> real"
  offsetTop :: "node \<Rightarrow> real"
  rectHeight :: "node \<Rightarrow> real"

definition isScrollable :: "dom \<Rightarrow> node \<Rightarrow> error + bool" where
  "isScrollable d el =
     (if \<not> isElement d el then Inl TypeError
      else
        (let canScrollY = clientHeight d el < scrollHeight d el;
             canScrollX = clientWidth d el < scrollWidth d el;
             isScrollableY = (canScrollY \<and> (overflowY d el = ''auto'' \<or> overflowY d el = ''scroll''));
             isScrollableX = (canScrollX \<and> (overflowX d el = ''auto'' \<or> overflowX d el = ''scroll''))
         in Inr (isScrollableY \<or> isScrollableX)))"

text \<open>
  The loop of \<^verbatim>\<open>nearestScrollableContainer\<close>. The argument is \<^const>\<open>None\<close> for
  \<^verbatim>\<open>undefined\<close>, which is not \<^verbatim>\<open>document.body\<close> and on which \<^verbatim>\<open>getComputedStyle\<close>
  throws. The result is \<^const>\<open>None\<close> when the loop does not end.
\<close>

partial_function (option) nearestScrollableContainer :: "dom \<Rightarrow> node option \<Rightarrow> (error + node) option" where
  "nearestScrollableContainer d el =
     (case el of
        None \<Rightarrow> Some (Inl TypeError)
      | Some n \<Rightarrow>
          if n = body d then Some (Inr n)
          else
            (case isScrollable d n of
               Inl e \<Rightarrow> Some (Inl e)
             | Inr scrollable \<Rightarrow>
                 if scrollable = False
                 then nearestScrollableContainer d
                        (case parentNode d n of Some p \<Rightarrow> Some p | None \<Rightarrow> host d n)
                 else Some (Inr n)))"

text \<open>
  The words of the specification about the loop. An element is a descendant of
  \<^verbatim>\<open>document.body\<close>, \<open>k\<close> levels below it, when its \<open>k\<close>-th ancestor is the body; \<open>k = 0\<close>
  is the body itself. \<^term>\<open>ancestors d k el\<close> is the chain of the element and its first \<open>k\<close>
  ancestors, as far as there are parents. An element is scrollable when, on one of the
  two axes, its overflow style is \<^verbatim>\<open>auto\<close> or \<^verbatim>\<open>scroll\<close> and its content exceeds its client
  box. The container the specification names for a chain is its first scrollable
  element, or the body if none is scrollable.
\<close>

fun ancestor :: "dom \<Rightarrow> nat \<Rightarrow> node \<Rightarrow> node option" where
  "ancestor d 0 el = Some el"
| "ancestor d (Suc k) el = (case parentNode d el of None \<Rightarrow> None | Some p \<Rightarrow> ancestor d k p)"

fun ancestors :: "dom \<Rightarrow> nat \<Rightarrow> node \<Rightarrow> node list" where
  "ancestors d 0 el = [el]"
| "ancestors d (Suc k) el = el # (case parentNode d el of None \<Rightarrow> [] | Some p \<Rightarrow> ancestors d k p)"

definition spec_scrollable :: "dom \<Rightarrow> node \<Rightarrow> bool" where
  "spec_scrollable d x =
     ((overflowX d x \<in> {''auto'', ''scroll''} \<and> scrollWidth d x > clientWidth d x) \<or>
      (overflowY d x \<in> {''auto'', ''scroll''} \<and> scrollHeight d x > clientHeight d x))"

definition first_scrollable :: "dom \<Rightarrow> node list \<Rightarrow> node" where
  "first_scrollable d chain =
     (case find (spec_scrollable d) chain of Some x \<Rightarrow> x | None \<Rightarrow> body d)"

section \<open>The layout effect of \<^verbatim>\<open>Nav\<close>\<close>

record refs =
  activeItemRef :: "node option"
  previousActiveItemRef :: "node option"
  scrollRef :: "node option"

text \<open>The effect that runs when \<^verbatim>\<open>router.pathname\<close> changes, on the document and the three
  refs. An assignment to \<^verbatim>\<open>scrollTop\<close> is kept as written.\<close>

definition Nav_layoutEffect :: "dom \<Rightarrow> refs \<Rightarrow> (error + dom \<times> refs) option" where
  "Nav_layoutEffect d r =
     (case activeItemRef r of
        None \<Rightarrow> Some (Inr (d, r))
      | Some active \<Rightarrow>
          (let r1 = r\<lparr> previousActiveItemRef := activeItemRef r \<rparr>
           in if activeItemRef r1 = previousActiveItemRef r1 then Some (Inr (d, r1))
              else
                (case nearestScrollableContainer d (scrollRef r1) of
                   None \<Rightarrow> None
                 | Some (Inl e) \<Rightarrow> Some (Inl e)
                 | Some (Inr scrollable) \<Rightarrow>
                     (let scrollRect_height = rectHeight d scrollable;
                          activeItemRect_height = rectHeight d active;
                          top = offsetTop d active;
                          bottom = top - scrollRect_height + activeItemRect_height
                      in if scrollTop d scrollable > top \<or> scrollTop d scrollable < bottom
                         then Some (Inr (d\<lparr> scrollTop := (scrollTop d)
                                 (scrollable := top - scrollRect_height / 2 + activeItemRect_height / 2) \<rparr>, r1))
                         else Some (Inr (d, r1))))))"

section \<open>The quick search input of \<^verbatim>\<open>DynamicSearchButton\<close>\<close>

text \<open>A change event carries \<^verbatim>\<open>e.target.value\<close>, \<^const>\<open>None\<close> when it is nullish.\<close>

record change_event =
  target_value :: "string option"

text \<open>\<^verbatim>\<open>handleChange\<close>, with the setter that \<^verbatim>\<open>useSearch\<close> returns as a parameter: a
  function from the new filter to a change of the state it belongs to.\<close>

definition handleChange :: "(string \<Rightarrow> 's \<Rightarrow> 's) \<Rightarrow> change_event \<Rightarrow> 's \<Rightarrow> 's" where
  "handleChange setFilter e = setFilter (nullish (target_value e) [])"

text \<open>The component renders the text input, with \<^verbatim>\<open>handleChange\<close> as its \<^verbatim>\<open>onChange\<close>, only
  when \<^verbatim>\<open>config.algolia\<close> is not set; otherwise it renders the \<^verbatim>\<open>SearchButton\<close>.\<close>

definition DynamicSearchButton_onChange ::
    "config \<Rightarrow> (string \<Rightarrow> 's \<Rightarrow> 's) \<Rightarrow> (change_event \<Rightarrow> 's \<Rightarrow> 's) option" where
  "DynamicSearchButton_onChange cfg setFilter =
     (if algolia cfg then None else Some (handleChange setFilter))"

section \<open>\<^verbatim>\<open>SidebarLayout\<close>\<close>

text \<open>The props of the layout. \<^verbatim>\<open>setNavIsOpen\<close> is optional; when given, it maps the new
  value to a change of the state \<open>'s\<close> of the component that owns the drawer.\<close>

record 's layout_props =
  navIsOpen :: bool
  setNavIsOpen :: "(bool \<Rightarrow> 's \<Rightarrow> 's) option"
  fallbackHref :: "string option"
  allowOverflow :: bool

record nav_props =
  nav_fallbackHref :: "string option"
  nav_mobile :: bool

text \<open>What the layout renders: the class of the wrapper, the desktop sidebar, and the dialog
  with its \<^verbatim>\<open>open\<close> flag, its \<^verbatim>\<open>onClose\<close> handler, the \<^verbatim>\<open>onClick\<close> handler of its close button
  and its own \<^verbatim>\<open>Nav\<close>.\<close>

record 's layout_view =
  wrapper_className :: "string option"
  desktop_nav :: nav_props
  dialog_open :: bool
  dialog_onClose :: "'s \<Rightarrow> 's"
  button_onClick :: "'s \<Rightarrow> 's"
  dialog_nav :: nav_props

text \<open>\<^verbatim>\<open>setNavIsOpen?.(v)\<close>: the call, or nothing without the function.\<close>

definition optional_call :: "('a \<Rightarrow> 's \<Rightarrow> 's) option \<Rightarrow> 'a \<Rightarrow> 's \<Rightarrow> 's" where
  "optional_call fn v s = (case fn of None \<Rightarrow> s | Some g \<Rightarrow> g v s)"

definition SidebarLayout :: "'s layout_props \<Rightarrow> 's layout_view" where
  "SidebarLayout props =
     \<lparr> wrapper_className = (if allowOverflow props then None else Some ''overflow-hidden''),
       desktop_nav = \<lparr> nav_fallbackHref = fallbackHref props, nav_mobile = False \<rparr>,
       dialog_open = navIsOpen props,
       dialog_onClose = optional_call (setNavIsOpen props) False,
       button_onClick = optional_call (setNavIsOpen props) False,
       dialog_nav = \<lparr> nav_fallbackHref = fallbackHref props, nav_mobile = True \<rparr> \<rparr>"

section \<open>Example inputs\<close>

definition page_intro :: page where
  "page_intro =
     \<lparr> href = ''/intro'',
       meta = \<lparr> title = Some ''Introduction'', description = Some ''Getting Started'',
                group = Some ''Guides'', published = None, match = None \<rparr> \<rparr>"

definition page_about :: page where
  "page_about =
     \<lparr> href = ''/about'',
       meta = \<lparr> title = Some ''About'', description = None,
                group = None, published = None, match = None \<rparr> \<rparr>"

definition page_draft :: page where
  "page_draft =
     \<lparr> href = ''/draft'',
       meta = \<lparr> title = Some ''Draft'', description = Some ''Not ready'',
                group = Some ''Blog'', published = Some ''false'', match = None \<rparr> \<rparr>"

text \<open>An unpublished page whose own target is the fallback target of the examples.\<close>

definition page_soon :: page where
  "page_soon =
     \<lparr> href = ''/soon'',
       meta = \<lparr> title = Some ''Coming soon'', description = None,
                group = Some ''Guides'', published = Some ''false'', match = None \<rparr> \<rparr>"

text \<open>A page whose group has the name of a member of \<^verbatim>\<open>Object.prototype\<close>, and a page whose
  group is the empty name.\<close>

definition page_constructor :: page where
  "page_constructor =
     \<lparr> href = ''/constructor'',
       meta = \<lparr> title = Some ''Constructors'', description = None,
                group = Some ''constructor'', published = None, match = None \<rparr> \<rparr>"

definition page_unnamed :: page where
  "page_unnamed =
     \<lparr> href = ''/unnamed'',
       meta = \<lparr> title = Some ''Unnamed'', description = None,
                group = Some [], published = None, match = None \<rparr> \<rparr>"

definition unnamed_config :: config where
  "unnamed_config =
     \<lparr> sidebar = Some \<lparr> order = Some [[]], links = Some [] \<rparr>, algolia = False \<rparr>"

definition example_nav :: Nav where
  "example_nav = [(''docs'', [page_intro, page_about]), (''blog'', [page_draft])]"

definition plain_config :: config where
  "plain_config = \<lparr> sidebar = None, algolia = False \<rparr>"

definition link_docs :: link where
  "link_docs = \<lparr> url = Some ''/docs'', label = ''Documentation'', icon = None \<rparr>"

definition ordered_config :: config where
  "ordered_config =
     \<lparr> sidebar = Some \<lparr> order = Some [''Guides''], links = Some [Some link_docs] \<rparr>,
       algolia = False \<rparr>"

definition repeating_config :: config where
  "repeating_config =
     \<lparr> sidebar = Some \<lparr> order = Some [''Guides'', ''Guides''], links = Some [Some link_docs] \<rparr>,
       algolia = False \<rparr>"

definition linkless_config :: config where
  "linkless_config = \<lparr> sidebar = Some \<lparr> order = None, links = None \<rparr>, algolia = False \<rparr>"

text \<open>What \<^verbatim>\<open>Nav\<close> renders for \<^const>\<open>example_nav\<close> on the path \<^verbatim>\<open>/intro\<close>, with the empty
  filter string and the fallback target \<^verbatim>\<open>/soon\<close>.\<close>

definition example_group_views :: "group_view list" where
  "example_group_views =
     [\<lparr> h5_class = [''mb-8 lg:mb-3 font-semibold'', ''text-slate-900 dark:text-slate-200''],
        h5_children = ''Guides'',
        group_items =
          [\<lparr> li_data_active = Some ''true'', link_href = ''/intro'',
             a_data_is_selected = ''true'', a_children = Some ''Introduction'' \<rparr>] \<rparr>,
      \<lparr> h5_class = [''mb-8 lg:mb-3 font-semibold'', ''text-slate-900 dark:text-slate-200''],
        h5_children = ''Blog'',
        group_items =
          [\<lparr> li_data_active = None, link_href = ''/soon'',
             a_data_is_selected = ''false'', a_children = Some ''Draft'' \<rparr>] \<rparr>]"

text \<open>
  A document: the root element 0, the body 1, the sidebar 2, which scrolls vertically, the
  \<^verbatim>\<open>nav\<close> element 3 inside it and the active list item 4 inside that; node 7 is an element
  that is not attached to the document. The sidebar is 500 pixels high and not scrolled;
  the active item, 20 pixels high, lies 1000 pixels below its top.
\<close>

definition example_dom :: dom where
  "example_dom =
     \<lparr> body = 1,
       isElement = (\<lambda>n. True),
       parentNode = (\<lambda>n. if n = 4 then Some 3 else if n = 3 then Some 2
                          else if n = 2 then Some 1 else if n = 1 then Some 0 else None),
       host = (\<lambda>n. None),
       overflowX = (\<lambda>n. ''visible''),
       overflowY = (\<lambda>n. if n = 2 then ''auto'' else ''visible''),
       clientHeight = (\<lambda>n. 500),
       scrollHeight = (\<lambda>n. if n = 2 then 2000 else 500),
       clientWidth = (\<lambda>n. 300),
       scrollWidth = (\<lambda>n. 300),
       scrollTop = (\<lambda>n. 0),
       offsetTop = (\<lambda>n. if n = 4 then 1000 else 0),
       rectHeight = (\<lambda>n. if n = 4 then 20 else 500) \<rparr>"

text \<open>The same document with the sidebar's content fitting its box and the root element
  scrolling instead.\<close>

definition root_scroll_dom :: dom where
  "root_scroll_dom =
     example_dom\<lparr> overflowY := (\<lambda>n. if n = 0 then ''auto'' else ''visible''),
                  scrollHeight := (\<lambda>n. if n = 0 then 2000 else 500) \<rparr>"

definition example_refs :: refs where
  "example_refs = \<lparr> activeItemRef = Some 4, previousActiveItemRef = None, scrollRef = Some 3 \<rparr>"

text \<open>A search state that holds the shared filter string, and a setter that stores a new
  one.\<close>

record search_state =
  search_filter :: string

definition store_filter :: "string \<Rightarrow> search_state \<Rightarrow> search_state" where
  "store_filter v s = s\<lparr> search_filter := v \<rparr>"

text \<open>A layout whose owner keeps the drawer's state as a boolean, the drawer open.\<close>

definition example_props :: "bool layout_props" where
  "example_props =
     \<lparr> navIsOpen = True, setNavIsOpen = Some (\<lambda>v s. v), fallbackHref = Some ''/soon'',
       allowOverflow = True \<rparr>"

section \<open>Strings: substrings, trimming and lower case\<close>

lemma startsWith_iff: "startsWith s f \<longleftrightarrow> (\<exists>ss. s = f @ ss)"
  by (induction s f rule: startsWith.induct) auto

lemma includes_str_iff: "includes_str s f \<longleftrightarrow> (\<exists>ps ss. s = ps @ f @ ss)"
proof (induction s)
  case Nil
  then show ?case by (simp add: startsWith_iff)
next
  case (Cons d ds)
  show ?case
  proof
    assume "includes_str (d # ds) f"
    then consider "startsWith (d # ds) f" | "includes_str ds f" by auto
    then show "\<exists>ps ss. d # ds = ps @ f @ ss"
    proof cases
      case 1
      then obtain ss where "d # ds = [] @ f @ ss" by (auto simp: startsWith_iff)
      then show ?thesis by blast
    next
      case 2
      then obtain ps ss where "ds = ps @ f @ ss" using Cons.IH by blast
      then have "d # ds = (d # ps) @ f @ ss" by simp
      then show ?thesis by blast
    qed
  next
    assume "\<exists>ps ss. d # ds = ps @ f @ ss"
    then obtain ps ss where e: "d # ds = ps @ f @ ss" by blast
    show "includes_str (d # ds) f"
    proof (cases ps)
      case Nil
      with e have "startsWith (d # ds) f" by (auto simp: startsWith_iff)
      then show ?thesis by simp
    next
      case (Cons q qs)
      with e have "ds = qs @ f @ ss" by simp
      then have "includes_str ds f" using Cons.IH by blast
      then show ?thesis by simp
    qed
  qed
qed

lemma includes_str_empty [simp]: "includes_str s []"
  by (induction s) auto

lemma lowerChar_space: "lowerChar c = CHR '' '' \<longleftrightarrow> c = CHR '' ''"
proof
  assume a: "lowerChar c = CHR '' ''"
  show "c = CHR '' ''"
  proof (cases "isUpperCase c")
    case True
    then have "char_of ((of_char c :: nat) + 32) = CHR '' ''" using a by (simp add: lowerChar_def)
    then have "of_char (char_of ((of_char c :: nat) + 32)) = (of_char (CHR '' '') :: nat)" by simp
    then have m: "((of_char c :: nat) + 32) mod 256 = 32" by simp
    from True have b: "65 \<le> (of_char c :: nat)" "(of_char c :: nat) \<le> 222"
      by (auto simp: isUpperCase_def Let_def)
    from b have "((of_char c :: nat) + 32) mod 256 = of_char c + 32" by simp
    with m b have False by simp
    then show ?thesis ..
  next
    case False
    then show ?thesis using a by (simp add: lowerChar_def)
  qed
next
  assume "c = CHR '' ''"
  then show "lowerChar c = CHR '' ''" by (simp add: lowerChar_def isUpperCase_def)
qed

lemma trim_ends: "trim s = [] \<or> (\<not> isWhiteSpace (hd (trim s)) \<and> \<not> isWhiteSpace (last (trim s)))"
proof -
  let ?a = "dropWhile isWhiteSpace s"
  let ?b = "dropWhile isWhiteSpace (rev ?a)"
  show ?thesis
  proof (cases "?b = []")
    case True
    then show ?thesis by (simp add: trim_def)
  next
    case False
    then have hb: "\<not> isWhiteSpace (hd ?b)" by (simp add: hd_dropWhile)
    have "?a \<noteq> []"
    proof
      assume h: "?a = []"
      have "?b = []" unfolding h by simp
      with False show False by simp
    qed
    then have ha: "\<not> isWhiteSpace (hd ?a)" by (simp add: hd_dropWhile)
    have l: "last (rev ?b) = hd ?b" using False by (simp add: last_rev)
    have "\<exists>zs. rev ?a = zs @ ?b" by (metis takeWhile_dropWhile_id)
    then obtain zs where "rev ?a = zs @ ?b" by blast
    then have "?a = rev ?b @ rev zs" by (metis rev_append rev_rev_ident)
    then have "hd (rev ?b) = hd ?a" using False by (metis hd_append2 rev_is_Nil_conv)
    with ha hb l show ?thesis by (simp add: trim_def)
  qed
qed

lemma toLowerCase_trim_ends:
  "toLowerCase (trim s) = [] \<or>
   (hd (toLowerCase (trim s)) \<noteq> CHR '' '' \<and> last (toLowerCase (trim s)) \<noteq> CHR '' '')"
proof (cases "trim s = []")
  case True
  then show ?thesis by (simp add: toLowerCase_def)
next
  case False
  with trim_ends [of s] have w: "\<not> isWhiteSpace (hd (trim s))" "\<not> isWhiteSpace (last (trim s))"
    by auto
  then have "hd (trim s) \<noteq> CHR '' ''" "last (trim s) \<noteq> CHR '' ''"
    by (auto simp: isWhiteSpace_def)
  then have "lowerChar (hd (trim s)) \<noteq> CHR '' ''" "lowerChar (last (trim s)) \<noteq> CHR '' ''"
    by (simp_all add: lowerChar_space)
  with False show ?thesis by (simp add: toLowerCase_def hd_map last_map)
qed

lemma includes_str_space_front:
  assumes "f = [] \<or> hd f \<noteq> CHR '' ''"
  shows "includes_str (CHR '' '' # s) f = includes_str s f"
  using assms by (cases f) auto

lemma includes_str_space_back:
  assumes "f = [] \<or> last f \<noteq> CHR '' ''"
  shows "includes_str (s @ '' '') f = includes_str s f"
proof (cases "f = []")
  case True
  then show ?thesis by simp
next
  case False
  with assms have l: "last f \<noteq> CHR '' ''" by simp
  show ?thesis
  proof
    assume "includes_str (s @ '' '') f"
    then obtain ps ss where e: "s @ '' '' = ps @ f @ ss" by (auto simp: includes_str_iff)
    show "includes_str s f"
    proof (cases ss rule: rev_cases)
      case Nil
      with e have "last (s @ '' '') = last (ps @ f)" by simp
      with False l show ?thesis by simp
    next
      case (snoc ys y)
      with e have "s @ '' '' = (ps @ f @ ys) @ [y]" by simp
      then have "s = ps @ f @ ys" by (simp only: append1_eq_conv)
      then show ?thesis by (auto simp: includes_str_iff)
    qed
  next
    assume "includes_str s f"
    then obtain ps ss where "s = ps @ f @ ss" by (auto simp: includes_str_iff)
    then have "s @ '' '' = ps @ f @ (ss @ '' '')" by simp
    then show "includes_str (s @ '' '') f" unfolding includes_str_iff by blast
  qed
qed

lemma toLowerCase_append: "toLowerCase (a @ b) = toLowerCase a @ toLowerCase b"
  by (simp add: toLowerCase_def)

lemma toLowerCase_space: "toLowerCase '' '' = '' ''"
  by (simp add: toLowerCase_def lowerChar_space)

lemma matchesPage_spec: "matchesPage (toLowerCase (trim fs)) p = spec_matches fs p"
proof -
  let ?f = "toLowerCase (trim fs)"
  from toLowerCase_trim_ends [of fs]
  have fr: "?f = [] \<or> hd ?f \<noteq> CHR '' ''" and bk: "?f = [] \<or> last ?f \<noteq> CHR '' ''"
    by auto
  have sp: "includes_str '' '' ?f = includes_str [] ?f"
    using includes_str_space_front [OF fr, of "[]"] .
  have front: "includes_str (CHR '' '' # toLowerCase d) ?f = includes_str (toLowerCase d) ?f" for d
    using includes_str_space_front [OF fr] .
  have bck: "includes_str (toLowerCase t @ '' '') ?f = includes_str (toLowerCase t) ?f" for t
    using includes_str_space_back [OF bk] .
  show ?thesis
  proof (cases "title (meta p)")
    case None
    then show ?thesis
      by (cases "description (meta p)") (auto simp: matchesPage_def spec_matches_def)
  next
    case (Some t)
    show ?thesis
    proof (cases "description (meta p)")
      case None
      with Some show ?thesis by (auto simp: matchesPage_def spec_matches_def)
    next
      case (Some d)
      have ls: "lowerChar CHR '' '' = CHR '' ''" by (simp add: lowerChar_space)
      have lc: "toLowerCase (c # cs) = lowerChar c # toLowerCase cs" for c cs
        by (simp add: toLowerCase_def)
      have ln: "toLowerCase [] = []" by (simp add: toLowerCase_def)
      from Some \<open>title (meta p) = Some t\<close> show ?thesis
        by (simp add: matchesPage_def spec_matches_def toLowerCase_append lc ln ls sp front bck
            del: includes_str.simps)
    qed
  qed
qed

section \<open>Properties of \<^verbatim>\<open>filtered\<close>\<close>

lemma objectify_id: "objectify xs (\<lambda>g. g) v g = (if g \<in> set xs then Some (v g) else None)"
proof -
  have "foldl (\<lambda>acc item. acc(item \<mapsto> v item)) m xs g = (if g \<in> set xs then Some (v g) else m g)" for m
    by (induction xs arbitrary: m) auto
  then show ?thesis by (simp add: objectify_def)
qed

lemma set_unique_acc: "set (unique_acc acc xs) = set acc \<union> {x \<in> set xs. \<not> isPrototypeKey x}"
  by (induction acc xs rule: unique_acc.induct) auto

lemma distinct_unique_acc: "distinct acc \<Longrightarrow> distinct (unique_acc acc xs)"
  by (induction acc xs rule: unique_acc.induct) auto

lemma set_ownKeys: "set (ownKeys ks) = set ks"
  by (auto simp: ownKeys_def)

lemma distinct_ownKeys: "distinct ks \<Longrightarrow> distinct (ownKeys ks)"
  by (auto simp: ownKeys_def)

lemma set_unique: "set (unique xs) = {x \<in> set xs. \<not> isPrototypeKey x}"
  by (simp add: unique_def set_ownKeys set_unique_acc)

lemma distinct_unique: "distinct (unique xs)"
  by (simp add: unique_def distinct_ownKeys distinct_unique_acc)

lemma unique_examples:
  "unique [''b'', ''2'', ''b'', ''10'', ''2'', ''constructor'', ''07''] = [''2'', ''10'', ''b'', ''07'']"
  by code_simp

lemma set_sift: "set (sift xs) = {s. Some s \<in> set xs \<and> s \<noteq> []}"
  by (induction xs rule: sift.induct) auto

lemma find_eq_None: "(find P xs \<noteq> None) = (\<exists>x\<in>set xs. P x)"
  by (auto simp: find_None_iff)

lemma groups_filtered:
  "groups (filtered cfg fs n) =
     (case sidebar_order cfg of
        Some ord \<Rightarrow> filter (\<lambda>g. \<exists>p\<in>set (matchPages fs n). group (meta p) = Some g) ord
      | None \<Rightarrow> unique (sift (map (\<lambda>p. group (meta p)) (matchPages fs n))))"
proof -
  have "groups (filtered cfg fs n) =
     (case sidebar_order cfg of
        Some ord \<Rightarrow> filter (\<lambda>g. find (\<lambda>p. group (meta p) = Some g) (matchPages fs n) \<noteq> None) ord
      | None \<Rightarrow> unique (sift (map (\<lambda>p. group (meta p)) (matchPages fs n))))"
    by (simp add: filtered_def Let_def split: option.splits)
  then show ?thesis by (simp only: find_eq_None)
qed

lemma pages_filtered:
  "pages (filtered cfg fs n) g =
     (if g \<in> set (groups (filtered cfg fs n))
      then Some (filter (\<lambda>p. group (meta p) = Some g) (matchPages fs n)) else None)"
  by (simp add: filtered_def Let_def objectify_id)

lemma in_groups_filtered:
  "g \<in> set (groups (filtered cfg fs n)) \<longleftrightarrow>
     (\<exists>p\<in>set (matchPages fs n). group (meta p) = Some g) \<and>
     (case sidebar_order cfg of
        Some ord \<Rightarrow> g \<in> set ord
      | None \<Rightarrow> g \<noteq> [] \<and> \<not> isPrototypeKey g)"
proof (cases "sidebar_order cfg")
  case None
  have "Some g \<in> (\<lambda>p. group (meta p)) ` set (matchPages fs n) \<longleftrightarrow>
      (\<exists>p\<in>set (matchPages fs n). group (meta p) = Some g)"
    by force
  with None show ?thesis by (auto simp: groups_filtered set_unique set_sift)
next
  case (Some ord)
  then show ?thesis by (auto simp: groups_filtered)
qed

lemma nav_contains_filtered:
  "nav_contains (filtered cfg fs n) p \<longleftrightarrow>
     p \<in> set (matchPages fs n) \<and> group_listed cfg p"
proof -
  have "nav_contains (filtered cfg fs n) p \<longleftrightarrow>
      (\<exists>g\<in>set (groups (filtered cfg fs n)). p \<in> set (matchPages fs n) \<and> group (meta p) = Some g)"
    by (auto simp: nav_contains_def list_ex_iff pages_filtered)
  also have "\<dots> \<longleftrightarrow> p \<in> set (matchPages fs n) \<and> group_listed cfg p"
    by (cases "group (meta p)")
      (auto simp: in_groups_filtered group_listed_def list_ex_iff split: option.splits)
  finally show ?thesis .
qed

lemma matchPages_spec: "matchPages fs n = filter (spec_matches fs) (allPages n)"
  by (simp add: matchPages_def Let_def matchesPage_spec [abs_def])

lemma trim_blank: "blank fs \<Longrightarrow> trim fs = []"
proof -
  assume "blank fs"
  then have h: "dropWhile isWhiteSpace fs = []" by (simp add: blank_def list_all_iff)
  show "trim fs = []" unfolding trim_def h by simp
qed

lemma spec_matches_blank: "blank fs \<Longrightarrow> spec_matches fs p"
  by (simp add: spec_matches_def trim_blank toLowerCase_def)

text \<open>
  Claim C1, as the code has it: the filtered navigation contains exactly the pages of the
  navigation map that match the filter string (title and description, the missing ones
  dropped, joined with a space and lower-cased, contain the trimmed, lower-cased filter
  string) and whose group can be listed. With \<^verbatim>\<open>config.sidebar.order\<close> that is a group
  which is an entry of that list, the empty name included when the list has it; without
  that list it is a truthy group name that is not the name of a member of
  \<^verbatim>\<open>Object.prototype\<close>, a name that \<^verbatim>\<open>unique\<close> drops.
\<close>

theorem filtered_contains_iff:
  "nav_contains (filtered cfg fs n) p \<longleftrightarrow>
     p \<in> set (allPages n) \<and> spec_matches fs p \<and> group_listed cfg p"
  by (simp add: nav_contains_filtered matchPages_spec)

text \<open>The theorem at the filter string \<^verbatim>\<open>Intro\<close> between two spaces: the introduction
  is kept, the draft is not. At the empty filter string, a page of the group
  \<^verbatim>\<open>constructor\<close> is not contained without \<^verbatim>\<open>config.sidebar.order\<close>, and a page of the
  group with the empty name is contained when that list holds the empty name.\<close>

theorem filtered_contains_iff_witness:
  "nav_contains (filtered plain_config '' Intro '' example_nav) page_intro \<and>
   \<not> nav_contains (filtered plain_config '' Intro '' example_nav) page_draft \<and>
   \<not> nav_contains (filtered plain_config [] [(''docs'', [page_constructor])]) page_constructor \<and>
   nav_contains (filtered unnamed_config [] [(''docs'', [page_unnamed])]) page_unnamed"
proof -
  have "page_intro \<in> set (allPages example_nav)" "spec_matches '' Intro '' page_intro"
    "group_listed plain_config page_intro" "\<not> spec_matches '' Intro '' page_draft"
    "\<not> group_listed plain_config page_constructor"
    "page_unnamed \<in> set (allPages [(''docs'', [page_unnamed])])" "spec_matches [] page_unnamed"
    "group_listed unnamed_config page_unnamed"
    by code_simp+
  then show ?thesis
    using filtered_contains_iff [of plain_config "'' Intro ''" example_nav page_intro]
      filtered_contains_iff [of plain_config "'' Intro ''" example_nav page_draft]
      filtered_contains_iff [of plain_config "[]" "[(''docs'', [page_constructor])]" page_constructor]
      filtered_contains_iff [of unnamed_config "[]" "[(''docs'', [page_unnamed])]" page_unnamed]
    by simp
qed

text \<open>Claim C1 as stated fails on a page without a group: it matches the filter string,
  and the filtered navigation does not contain it.\<close>

theorem filtered_contains_counterexample:
  "page_about \<in> set (allPages example_nav) \<and> spec_matches ''about'' page_about \<and>
   \<not> nav_contains (filtered plain_config ''about'' example_nav) page_about"
  by code_simp

text \<open>
  Claim C8, as the code has it: a blank filter string (empty, or white space only) gives
  the result of the empty filter string; every page matches, so the groups are computed
  from all the pages of the flattened navigation map (the entries of
  \<^verbatim>\<open>config.sidebar.order\<close> that are the group of some page, or else what \<^verbatim>\<open>unique\<close> returns
  for the truthy groups of the pages), the result contains exactly the pages whose group
  can be listed (an entry of \<^verbatim>\<open>config.sidebar.order\<close>, whatever the name, or else a truthy
  name that is not the name of a member of \<^verbatim>\<open>Object.prototype\<close>), and each listed group
  records all the pages of that group, in the order of the flattened map.
\<close>

theorem filtered_blank:
  assumes "blank fs"
  shows "filtered cfg fs n = filtered cfg [] n \<and>
    groups (filtered cfg fs n) =
      (case sidebar_order cfg of
         Some ord \<Rightarrow> filter (\<lambda>g. list_ex (\<lambda>p. group (meta p) = Some g) (allPages n)) ord
       | None \<Rightarrow> unique (sift (map (\<lambda>p. group (meta p)) (allPages n)))) \<and>
    (nav_contains (filtered cfg fs n) p \<longleftrightarrow> p \<in> set (allPages n) \<and> group_listed cfg p) \<and>
    (g \<in> set (groups (filtered cfg fs n)) \<longrightarrow>
       pages (filtered cfg fs n) g = Some (filter (\<lambda>p. group (meta p) = Some g) (allPages n)))"
proof -
  have m: "matchPages fs n = allPages n"
    using assms by (simp add: matchPages_spec spec_matches_blank)
  have "trim [] = []" by (simp add: trim_def)
  then have e: "matchPages [] n = matchPages fs n"
    by (simp add: matchPages_def trim_blank [OF assms])
  have 1: "filtered cfg fs n = filtered cfg [] n"
    by (simp add: filtered_def e)
  have 2: "groups (filtered cfg fs n) =
      (case sidebar_order cfg of
         Some ord \<Rightarrow> filter (\<lambda>g. list_ex (\<lambda>p. group (meta p) = Some g) (allPages n)) ord
       | None \<Rightarrow> unique (sift (map (\<lambda>p. group (meta p)) (allPages n))))"
    by (simp add: groups_filtered m list_ex_iff split: option.splits)
  have 3: "nav_contains (filtered cfg fs n) p \<longleftrightarrow> p \<in> set (allPages n) \<and> group_listed cfg p"
    by (simp add: nav_contains_filtered m)
  have 4: "g \<in> set (groups (filtered cfg fs n)) \<longrightarrow>
       pages (filtered cfg fs n) g = Some (filter (\<lambda>p. group (meta p) = Some g) (allPages n))"
    by (simp add: pages_filtered m)
  from 1 2 3 4 show ?thesis by blast
qed

text \<open>The theorem at a filter string of two spaces.\<close>

theorem filtered_blank_witness:
  "blank ''  '' \<and>
   groups (filtered plain_config ''  '' example_nav) = [''Guides'', ''Blog''] \<and>
   nav_contains (filtered plain_config ''  '' example_nav) page_draft \<and>
   pages (filtered plain_config ''  '' example_nav) ''Guides'' = Some [page_intro]"
proof -
  have b: "blank ''  ''" by code_simp
  have g: "unique (sift (map (\<lambda>p. group (meta p)) (allPages example_nav))) = [''Guides'', ''Blog'']"
    "sidebar_order plain_config = None" "page_draft \<in> set (allPages example_nav)"
    "group_listed plain_config page_draft"
    "filter (\<lambda>p. group (meta p) = Some ''Guides'') (allPages example_nav) = [page_intro]"
    by code_simp+
  from conjunct2 [OF filtered_blank [OF b, of plain_config example_nav page_draft "''Guides''"]] b g
  show ?thesis by simp
qed

text \<open>Claim C8 as stated fails on a page whose group is not in \<^verbatim>\<open>config.sidebar.order\<close>:
  with a blank filter string the result does not contain it.\<close>

theorem filtered_blank_counterexample:
  "blank ''  '' \<and> page_draft \<in> set (allPages example_nav) \<and>
   \<not> nav_contains (filtered ordered_config ''  '' example_nav) page_draft"
  by code_simp

section \<open>What \<^verbatim>\<open>Nav\<close> renders\<close>

lemma array_map_all2:
  "array_map cb i xs = Inr ys \<Longrightarrow> list_all2 (\<lambda>x y. \<exists>j. cb x j = Inr y) xs ys"
proof (induction xs arbitrary: i ys)
  case Nil
  then show ?case by simp
next
  case (Cons x xs)
  then show ?case by (auto split: sum.splits)
qed

lemma array_map_ok:
  "(\<And>x j. x \<in> set xs \<Longrightarrow> \<exists>y. cb x j = Inr y) \<Longrightarrow> \<exists>ys. array_map cb i xs = Inr ys"
proof (induction xs arbitrary: i)
  case Nil
  then show ?case by simp
next
  case (Cons x xs)
  from Cons.prems [of x i] obtain y where y: "cb x i = Inr y" by auto
  from Cons.IH [of "Suc i"] Cons.prems obtain ys where "array_map cb (Suc i) xs = Inr ys"
    by auto
  with y show ?case by simp
qed

lemma array_map_fails:
  "x \<in> set xs \<Longrightarrow> (\<And>j. \<exists>e. cb x j = Inl e) \<Longrightarrow> \<exists>e. array_map cb i xs = Inl e"
proof (induction xs arbitrary: i)
  case Nil
  then show ?case by simp
next
  case (Cons a xs)
  show ?case
  proof (cases "cb a i")
    case (Inl e)
    then show ?thesis by simp
  next
    case (Inr y)
    with Cons.prems(2) [of i] have "x \<noteq> a" by auto
    with Cons.prems have "x \<in> set xs" by simp
    from Cons.IH [OF this Cons.prems(2), of "Suc i"] Inr show ?thesis by auto
  qed
qed

lemma navItem_target:
  assumes "navItem regExp pathname fb item i = Inr v"
  shows "link_href v = spec_link_target fb item \<and>
     (link_href v = href item \<longleftrightarrow>
        published (meta item) \<noteq> Some ''false'' \<or> href item = nullish fb [])"
  using assms
  by (cases fb) (auto simp: navItem_def NavItem_def spec_link_target_def split: if_splits option.splits)

lemma navItems_targets:
  assumes "array_map (navItem regExp pathname fb) i ps = Inr vs"
  shows "list_all2
     (\<lambda>p v. link_href v = spec_link_target fb p \<and>
        (link_href v = href p \<longleftrightarrow> published (meta p) \<noteq> Some ''false'' \<or> href p = nullish fb []))
     ps vs"
  using array_map_all2 [OF assms]
proof (rule list_all2_mono)
  fix p v
  assume "\<exists>j. navItem regExp pathname fb p j = Inr v"
  then obtain j where "navItem regExp pathname fb p j = Inr v" by blast
  then show "link_href v = spec_link_target fb p \<and>
        (link_href v = href p \<longleftrightarrow> published (meta p) \<noteq> Some ''false'' \<or> href p = nullish fb [])"
    by (rule navItem_target)
qed

lemma navGroup_view:
  assumes "navGroup regExp pathname fb r g i = Inr gv"
  shows "\<exists>ps. pages r g = Some ps \<and> h5_children gv = g \<and>
     list_all2
       (\<lambda>p v. link_href v = spec_link_target fb p \<and>
          (link_href v = href p \<longleftrightarrow> published (meta p) \<noteq> Some ''false'' \<or> href p = nullish fb []))
       ps (group_items gv) \<and>
     (ps \<noteq> [] \<longrightarrow> h5_class gv = [''mb-8 lg:mb-3 font-semibold'', ''text-slate-900 dark:text-slate-200''])"
proof -
  from assms obtain ps vs where ps: "pages r g = Some ps"
    and vs: "array_map (navItem regExp pathname fb) 0 ps = Inr vs"
    and gv: "gv = \<lparr> h5_class =
                       ''mb-8 lg:mb-3 font-semibold'' #
                       (if length ps > 0 then [''text-slate-900 dark:text-slate-200''] else []) @
                       (if length ps = 0 then [''text-slate-400''] else []),
                     h5_children = g,
                     group_items = vs \<rparr>"
    by (auto simp: navGroup_def split: option.splits sum.splits)
  from navItems_targets [OF vs] ps gv show ?thesis by simp
qed

lemma list_all2_setD2: "list_all2 P xs ys \<Longrightarrow> y \<in> set ys \<Longrightarrow> \<exists>x\<in>set xs. P x y"
  by (induction rule: list_all2_induct) auto

lemma group_pages_nonempty:
  assumes "g \<in> set (groups (filtered cfg fs n))"
  shows "filter (\<lambda>p. group (meta p) = Some g) (matchPages fs n) \<noteq> []"
proof -
  from assms obtain p where "p \<in> set (matchPages fs n)" "group (meta p) = Some g"
    by (auto simp: in_groups_filtered)
  then show ?thesis by (auto simp: filter_empty_conv)
qed

lemma Nav_groups_views:
  assumes "Nav_groups cfg regExp pathname fb fs n = Inr gvs"
  shows "list_all2 (\<lambda>g gv. \<exists>j. navGroup regExp pathname fb (filtered cfg fs n) g j = Inr gv)
           (groups (filtered cfg fs n)) gvs"
  using assms unfolding Nav_groups_def Let_def by (rule array_map_all2)

text \<open>
  Claim C10, as the code has it: when \<^verbatim>\<open>Nav\<close> renders, it renders one entry per listed
  group, headed by the group's name, with one item per matching page of that group, in
  their order. The link target of an item is the page's own \<^verbatim>\<open>href\<close> when
  \<^verbatim>\<open>meta.published\<close> is not the string \<^verbatim>\<open>false\<close>, and otherwise \<^verbatim>\<open>fallbackHref\<close>, the empty
  string when there is none. So the target is the page's own \<^verbatim>\<open>href\<close> if and only if
  \<^verbatim>\<open>meta.published\<close> is not the string \<^verbatim>\<open>false\<close> or the fallback is that same \<^verbatim>\<open>href\<close>.
\<close>

theorem nav_link_targets:
  assumes "Nav_groups cfg regExp pathname fb fs n = Inr gvs"
  shows "list_all2
           (\<lambda>g gv. h5_children gv = g \<and>
              list_all2
                (\<lambda>p v. link_href v = spec_link_target fb p \<and>
                   (link_href v = href p \<longleftrightarrow>
                      published (meta p) \<noteq> Some ''false'' \<or> href p = nullish fb []))
                (filter (\<lambda>p. group (meta p) = Some g) (filter (spec_matches fs) (allPages n)))
                (group_items gv))
           (groups (filtered cfg fs n)) gvs"
proof -
  have "list_all2 (\<lambda>g gv. g \<in> set (groups (filtered cfg fs n)) \<and>
          (\<exists>j. navGroup regExp pathname fb (filtered cfg fs n) g j = Inr gv))
        (groups (filtered cfg fs n)) gvs"
    using Nav_groups_views [OF assms] by (auto simp: list_all2_conv_all_nth)
  then show ?thesis
  proof (rule list_all2_mono)
    fix g gv
    assume "g \<in> set (groups (filtered cfg fs n)) \<and>
      (\<exists>j. navGroup regExp pathname fb (filtered cfg fs n) g j = Inr gv)"
    then obtain j where g: "g \<in> set (groups (filtered cfg fs n))"
      and v: "navGroup regExp pathname fb (filtered cfg fs n) g j = Inr gv" by blast
    from navGroup_view [OF v] obtain ps where ps: "pages (filtered cfg fs n) g = Some ps"
      "h5_children gv = g"
      "list_all2
         (\<lambda>p v. link_href v = spec_link_target fb p \<and>
            (link_href v = href p \<longleftrightarrow>
               published (meta p) \<noteq> Some ''false'' \<or> href p = nullish fb []))
         ps (group_items gv)"
      by blast
    from ps(1) g have "ps = filter (\<lambda>p. group (meta p) = Some g) (filter (spec_matches fs) (allPages n))"
      by (simp add: pages_filtered matchPages_spec)
    with ps(2,3) show "h5_children gv = g \<and>
              list_all2
                (\<lambda>p v. link_href v = spec_link_target fb p \<and>
                   (link_href v = href p \<longleftrightarrow>
                      published (meta p) \<noteq> Some ''false'' \<or> href p = nullish fb []))
                (filter (\<lambda>p. group (meta p) = Some g) (filter (spec_matches fs) (allPages n)))
                (group_items gv)"
      by simp
  qed
qed

text \<open>The theorem at \<^const>\<open>example_nav\<close>: the published page links to itself, the draft to
  the fallback.\<close>

theorem nav_link_targets_witness:
  "Nav_groups plain_config (\<lambda>pattern. None) ''/intro'' (Some ''/soon'') [] example_nav =
     Inr example_group_views \<and>
   map link_href (group_items (example_group_views ! 0)) = [href page_intro] \<and>
   map link_href (group_items (example_group_views ! 1)) = [''/soon'']"
proof -
  have e: "Nav_groups plain_config (\<lambda>pattern. None) ''/intro'' (Some ''/soon'') [] example_nav =
      Inr example_group_views"
    by code_simp
  have g: "groups (filtered plain_config [] example_nav) = [''Guides'', ''Blog'']"
    and g0: "filter (\<lambda>p. group (meta p) = Some ''Guides'') (filter (spec_matches []) (allPages example_nav)) = [page_intro]"
    and g1: "filter (\<lambda>p. group (meta p) = Some ''Blog'') (filter (spec_matches []) (allPages example_nav)) = [page_draft]"
    and t0: "spec_link_target (Some ''/soon'') page_intro = href page_intro"
    and t1: "spec_link_target (Some ''/soon'') page_draft = ''/soon''"
    by code_simp+
  note all = nav_link_targets [OF e, unfolded g]
  have l: "0 < length [''Guides'', ''Blog'']" "1 < length [''Guides'', ''Blog'']" by simp_all
  from list_all2_nthD [OF all l(1)]
  have "list_all2 (\<lambda>p v. link_href v = spec_link_target (Some ''/soon'') p \<and>
           (link_href v = href p \<longleftrightarrow>
              published (meta p) \<noteq> Some ''false'' \<or> href p = nullish (Some ''/soon'') []))
         [page_intro] (group_items (example_group_views ! 0))"
    by (simp only: nth_Cons_0 g0)
  then have a: "map link_href (group_items (example_group_views ! 0)) = [href page_intro]"
    by (auto simp: list_all2_Cons1 t0)
  from list_all2_nthD [OF all l(2)]
  have "list_all2 (\<lambda>p v. link_href v = spec_link_target (Some ''/soon'') p \<and>
           (link_href v = href p \<longleftrightarrow>
              published (meta p) \<noteq> Some ''false'' \<or> href p = nullish (Some ''/soon'') []))
         [page_draft] (group_items (example_group_views ! 1))"
    by (simp only: nth_Cons_0 nth_Cons_Suc One_nat_def g1)
  then have b: "map link_href (group_items (example_group_views ! 1)) = [''/soon'']"
    by (auto simp: list_all2_Cons1 t1)
  from e a b show ?thesis by simp
qed

text \<open>Claim C10 as stated fails on an unpublished page whose own \<^verbatim>\<open>href\<close> is the fallback
  target: \<^verbatim>\<open>meta.published\<close> is the string \<^verbatim>\<open>false\<close>, and the rendered link target is the
  page's own \<^verbatim>\<open>href\<close> all the same.\<close>

theorem nav_link_targets_counterexample:
  "published (meta page_soon) = Some ''false'' \<and>
   Nav_groups plain_config (\<lambda>pattern. None) ''/intro'' (Some ''/soon'') [] [(''docs'', [page_soon])] =
     Inr [\<lparr> h5_class = [''mb-8 lg:mb-3 font-semibold'', ''text-slate-900 dark:text-slate-200''],
            h5_children = ''Guides'',
            group_items =
              [\<lparr> li_data_active = None, link_href = href page_soon,
                 a_data_is_selected = ''false'', a_children = Some ''Coming soon'' \<rparr>] \<rparr>]"
  by code_simp

text \<open>
  Claim C9, as the code has it. Without \<^verbatim>\<open>config.sidebar.order\<close> the list of groups is
  duplicate-free and holds truthy names only; with it, the list of groups is that list
  restricted to the groups of the matching pages, so it is duplicate-free, and free of the
  empty name, when the configured list is. In both cases each listed group records
  exactly the matching pages whose \<^verbatim>\<open>meta.group\<close> is that group, at least one of them, and no
  rendered heading gets the class \<^verbatim>\<open>text-slate-400\<close> of an empty group.
\<close>

theorem filtered_groups_invariant:
  "(case sidebar_order cfg of
      None \<Rightarrow> distinct (groups (filtered cfg fs n)) \<and> [] \<notin> set (groups (filtered cfg fs n))
    | Some ord \<Rightarrow>
        groups (filtered cfg fs n) =
          filter (\<lambda>g. list_ex (\<lambda>p. group (meta p) = Some g) (filter (spec_matches fs) (allPages n))) ord \<and>
        (distinct ord \<longrightarrow> distinct (groups (filtered cfg fs n))) \<and>
        ([] \<notin> set ord \<longrightarrow> [] \<notin> set (groups (filtered cfg fs n)))) \<and>
   (\<forall>g\<in>set (groups (filtered cfg fs n)).
      pages (filtered cfg fs n) g =
        Some (filter (\<lambda>p. group (meta p) = Some g) (filter (spec_matches fs) (allPages n))) \<and>
      filter (\<lambda>p. group (meta p) = Some g) (filter (spec_matches fs) (allPages n)) \<noteq> []) \<and>
   (Nav_groups cfg regExp pathname fb fs n = Inr gvs \<longrightarrow>
      (\<forall>gv\<in>set gvs. ''text-slate-400'' \<notin> set (h5_class gv)))"
proof -
  let ?r = "filtered cfg fs n"
  have 1: "(case sidebar_order cfg of
      None \<Rightarrow> distinct (groups ?r) \<and> [] \<notin> set (groups ?r)
    | Some ord \<Rightarrow>
        groups ?r =
          filter (\<lambda>g. list_ex (\<lambda>p. group (meta p) = Some g) (filter (spec_matches fs) (allPages n))) ord \<and>
        (distinct ord \<longrightarrow> distinct (groups ?r)) \<and>
        ([] \<notin> set ord \<longrightarrow> [] \<notin> set (groups ?r)))"
  proof (cases "sidebar_order cfg")
    case None
    then show ?thesis by (simp add: groups_filtered distinct_unique set_unique set_sift)
  next
    case (Some ord)
    then show ?thesis by (simp add: groups_filtered matchPages_spec list_ex_iff)
  qed
  have 2: "\<forall>g\<in>set (groups ?r).
      pages ?r g = Some (filter (\<lambda>p. group (meta p) = Some g) (filter (spec_matches fs) (allPages n))) \<and>
      filter (\<lambda>p. group (meta p) = Some g) (filter (spec_matches fs) (allPages n)) \<noteq> []"
  proof
    fix g assume g: "g \<in> set (groups ?r)"
    from group_pages_nonempty [OF g] g
    show "pages ?r g = Some (filter (\<lambda>p. group (meta p) = Some g) (filter (spec_matches fs) (allPages n))) \<and>
      filter (\<lambda>p. group (meta p) = Some g) (filter (spec_matches fs) (allPages n)) \<noteq> []"
      by (simp add: pages_filtered matchPages_spec)
  qed
  have 3: "Nav_groups cfg regExp pathname fb fs n = Inr gvs \<longrightarrow>
      (\<forall>gv\<in>set gvs. ''text-slate-400'' \<notin> set (h5_class gv))"
  proof (intro impI ballI)
    fix gv assume a: "Nav_groups cfg regExp pathname fb fs n = Inr gvs" and gv: "gv \<in> set gvs"
    from list_all2_setD2 [OF Nav_groups_views [OF a] gv]
    obtain g j where g: "g \<in> set (groups ?r)"
      and v: "navGroup regExp pathname fb ?r g j = Inr gv" by blast
    from navGroup_view [OF v] obtain ps where ps: "pages ?r g = Some ps"
      and h: "ps \<noteq> [] \<longrightarrow> h5_class gv = [''mb-8 lg:mb-3 font-semibold'', ''text-slate-900 dark:text-slate-200'']"
      by blast
    from ps g 2 have "ps \<noteq> []" by auto
    with h show "''text-slate-400'' \<notin> set (h5_class gv)" by simp
  qed
  from 1 2 3 show ?thesis by blast
qed

text \<open>The theorem at the filter string \<^verbatim>\<open>intro\<close>.\<close>

theorem filtered_groups_invariant_witness:
  "distinct (groups (filtered plain_config ''intro'' example_nav)) \<and>
   [] \<notin> set (groups (filtered plain_config ''intro'' example_nav)) \<and>
   groups (filtered plain_config ''intro'' example_nav) = [''Guides''] \<and>
   pages (filtered plain_config ''intro'' example_nav) ''Guides'' = Some [page_intro]"
proof -
  have g: "sidebar_order plain_config = None"
    "groups (filtered plain_config ''intro'' example_nav) = [''Guides'']"
    "filter (\<lambda>p. group (meta p) = Some ''Guides'') (filter (spec_matches ''intro'') (allPages example_nav)) = [page_intro]"
    by code_simp+
  from filtered_groups_invariant [of plain_config "''intro''" example_nav "\<lambda>_. None" "[]" None "[]"] g
  show ?thesis by simp
qed

text \<open>Claim C9 as stated fails when \<^verbatim>\<open>config.sidebar.order\<close> names a group twice: the list
  of groups then repeats it.\<close>

theorem filtered_groups_counterexample:
  "sidebar_order repeating_config = Some [''Guides'', ''Guides''] \<and>
   groups (filtered repeating_config [] example_nav) = [''Guides'', ''Guides''] \<and>
   \<not> distinct (groups (filtered repeating_config [] example_nav))"
  by code_simp

section \<open>\<^verbatim>\<open>nearestScrollableContainer\<close> and the layout effect\<close>

lemma nsc_undefined: "nearestScrollableContainer d None = Some (Inl TypeError)"
  by (simp add: nearestScrollableContainer.simps)

lemma nsc_body: "nearestScrollableContainer d (Some (body d)) = Some (Inr (body d))"
  by (simp add: nearestScrollableContainer.simps)

lemma nsc_at_body: "n = body d \<Longrightarrow> nearestScrollableContainer d (Some n) = Some (Inr n)"
  by (simp add: nsc_body)

lemma nsc_step:
  assumes "n \<noteq> body d"
  shows "nearestScrollableContainer d (Some n) =
     (case isScrollable d n of
        Inl e \<Rightarrow> Some (Inl e)
      | Inr scrollable \<Rightarrow>
          if scrollable then Some (Inr n)
          else nearestScrollableContainer d
                 (case parentNode d n of Some p \<Rightarrow> Some p | None \<Rightarrow> host d n))"
  using assms
  by (subst nearestScrollableContainer.simps) (simp split: sum.splits)

lemma ancestor_in_ancestors: "ancestor d k el = Some b \<Longrightarrow> b \<in> set (ancestors d k el)"
  by (induction k arbitrary: el) (auto split: option.splits)

lemma isScrollable_element: "isElement d n \<Longrightarrow> isScrollable d n = Inr (spec_scrollable d n)"
  by (auto simp: isScrollable_def spec_scrollable_def Let_def)

lemma nsc_descendant:
  assumes "ancestor d k el = Some (body d)"
    and "distinct (ancestors d k el)"
    and "list_all (isElement d) (ancestors d k el)"
  shows "nearestScrollableContainer d (Some el) = Some (Inr (first_scrollable d (ancestors d k el)))"
  using assms
proof (induction k arbitrary: el)
  case 0
  then show ?case by (simp add: nsc_body first_scrollable_def)
next
  case (Suc k)
  from Suc.prems(1) obtain p where p: "parentNode d el = Some p" "ancestor d k p = Some (body d)"
    by (auto split: option.splits)
  from p(2) have "body d \<in> set (ancestors d k p)" by (rule ancestor_in_ancestors)
  with Suc.prems(2) p(1) have ne: "el \<noteq> body d" by auto
  from Suc.prems(3) have "isElement d el" by simp
  then have b: "isScrollable d el = Inr (spec_scrollable d el)" by (rule isScrollable_element)
  show ?case
  proof (cases "spec_scrollable d el")
    case True
    with b ne p show ?thesis by (simp add: nsc_step first_scrollable_def)
  next
    case False
    from Suc.prems p have "nearestScrollableContainer d (Some p) =
        Some (Inr (first_scrollable d (ancestors d k p)))"
      by (intro Suc.IH) auto
    with False b ne p show ?thesis by (simp add: nsc_step first_scrollable_def)
  qed
qed

lemma nsc_detached:
  assumes "el \<noteq> body d" and "isScrollable d el = Inr False"
    and "parentNode d el = None" and "host d el = None"
  shows "nearestScrollableContainer d (Some el) = Some (Inl TypeError)"
  using assms by (simp add: nsc_step nsc_undefined)

lemma Nav_layoutEffect_eq:
  "Nav_layoutEffect d r =
     Some (Inr (d, case activeItemRef r of None \<Rightarrow> r
                   | Some a \<Rightarrow> r\<lparr> previousActiveItemRef := Some a \<rparr>))"
  by (simp add: Nav_layoutEffect_def Let_def split: option.splits)

text \<open>
  Claim C6, as the code has it: for an element \<open>k\<close> levels below \<^verbatim>\<open>document.body\<close> (the body
  itself for \<open>k = 0\<close>), in a document that is a tree (no node twice on the chain of
  ancestors) and whose nodes on that chain are elements, the loop ends without an error,
  and it returns the first scrollable element of the chain from the element up to the
  body, or the body if none of these is scrollable. The ancestors of the body are not
  looked at.
\<close>

theorem nearestScrollableContainer_descendant:
  assumes "ancestor d k el = Some (body d)"
    and "distinct (ancestors d k el)"
    and "list_all (isElement d) (ancestors d k el)"
  shows "nearestScrollableContainer d (Some el) =
           Some (Inr (first_scrollable d (ancestors d k el)))"
  using assms by (rule nsc_descendant)

text \<open>The theorem at the \<^verbatim>\<open>nav\<close> element of \<^const>\<open>example_dom\<close>: the sidebar is its nearest
  scrollable container.\<close>

theorem nearestScrollableContainer_descendant_witness:
  "ancestor example_dom 2 3 = Some (body example_dom) \<and>
   ancestors example_dom 2 3 = [3, 2, 1] \<and>
   first_scrollable example_dom [3, 2, 1] = 2 \<and>
   nearestScrollableContainer example_dom (Some 3) = Some (Inr 2)"
proof -
  have a: "ancestor example_dom 2 3 = Some (body example_dom)"
    and c: "ancestors example_dom 2 3 = [3, 2, 1]"
    and f: "first_scrollable example_dom [3, 2, 1] = 2"
    by code_simp+
  have h: "distinct (ancestors example_dom 2 3)" "list_all (isElement example_dom) (ancestors example_dom 2 3)"
    by code_simp+
  from nearestScrollableContainer_descendant [OF a h] a c f show ?thesis by simp
qed

text \<open>
  Claim C6 as stated fails when an ancestor of the body scrolls. In
  \<^const>\<open>root_scroll_dom\<close> the \<^verbatim>\<open>nav\<close> element 3 is a descendant of the body 1, the chain of the
  element and all its ancestors is 3, 2, 1, 0, and its first scrollable element is the
  root element 0; the loop returns the body.
\<close>

theorem nearestScrollableContainer_counterexample:
  "ancestor root_scroll_dom 2 3 = Some (body root_scroll_dom) \<and>
   ancestors root_scroll_dom 3 3 = [3, 2, 1, 0] \<and>
   parentNode root_scroll_dom 0 = None \<and>
   spec_scrollable root_scroll_dom 0 \<and>
   first_scrollable root_scroll_dom [3, 2, 1, 0] = 0 \<and>
   nearestScrollableContainer root_scroll_dom (Some 3) = Some (Inr 1)"
proof -
  have "ancestor root_scroll_dom 2 3 = Some (body root_scroll_dom)"
    "ancestors root_scroll_dom 3 3 = [3, 2, 1, 0]"
    "parentNode root_scroll_dom 0 = None"
    "spec_scrollable root_scroll_dom 0"
    "first_scrollable root_scroll_dom [3, 2, 1, 0] = 0"
    by code_simp+
  moreover have "nearestScrollableContainer root_scroll_dom (Some 3) = Some (Inr 1)"
    by (simp add: nsc_step nsc_at_body root_scroll_dom_def example_dom_def isScrollable_def)
  ultimately show ?thesis by blast
qed

text \<open>
  Claim C2 on \<^const>\<open>example_dom\<close>, after a change of the path: the active item 4 lies below
  the visible window of the sidebar 2, its nearest scrollable container, and centring it
  means a \<^verbatim>\<open>scrollTop\<close> of 760. The effect stores the active item as the previous one,
  finds the two equal and returns: the document is unchanged and \<^verbatim>\<open>scrollTop\<close> is still 0.
\<close>

theorem Nav_layoutEffect_leaves_scrollTop:
  "nearestScrollableContainer example_dom (scrollRef example_refs) = Some (Inr 2) \<and>
   activeItemRef example_refs = Some 4 \<and>
   scrollTop example_dom 2 <
     offsetTop example_dom 4 - rectHeight example_dom 2 + rectHeight example_dom 4 \<and>
   offsetTop example_dom 4 - rectHeight example_dom 2 / 2 + rectHeight example_dom 4 / 2 = 760 \<and>
   scrollTop example_dom 2 = 0 \<and>
   Nav_layoutEffect example_dom example_refs =
     Some (Inr (example_dom, example_refs\<lparr> previousActiveItemRef := Some 4 \<rparr>))"
proof -
  have "nearestScrollableContainer example_dom (scrollRef example_refs) = Some (Inr 2)"
    by (simp add: nsc_step nsc_body example_dom_def example_refs_def isScrollable_def)
  moreover have "activeItemRef example_refs = Some 4" by (simp add: example_refs_def)
  moreover have "scrollTop example_dom 2 <
     offsetTop example_dom 4 - rectHeight example_dom 2 + rectHeight example_dom 4"
    "offsetTop example_dom 4 - rectHeight example_dom 2 / 2 + rectHeight example_dom 4 / 2 = 760"
    "scrollTop example_dom 2 = 0"
    by (simp_all add: example_dom_def)
  moreover have "Nav_layoutEffect example_dom example_refs =
     Some (Inr (example_dom, example_refs\<lparr> previousActiveItemRef := Some 4 \<rparr>))"
    by (simp add: Nav_layoutEffect_eq example_refs_def)
  ultimately show ?thesis by blast
qed

section \<open>Which functions throw\<close>

lemma topLevelLink_ok: "(\<exists>v. topLevelLink pathname mobile lnk idx = Inr v) \<longleftrightarrow> lnk \<noteq> None"
  by (cases lnk) (simp_all add: topLevelLink_def)

lemma TopLevelNav_ok:
  "(\<exists>vs. TopLevelNav cfg pathname mobile = Inr vs) \<longleftrightarrow>
     (case sidebar cfg of
        None \<Rightarrow> True
      | Some sb \<Rightarrow> (case links sb of None \<Rightarrow> False | Some ls \<Rightarrow> None \<notin> set ls))"
proof (cases "sidebar cfg")
  case None
  then show ?thesis by (simp add: TopLevelNav_def)
next
  case (Some sb)
  show ?thesis
  proof (cases "links sb")
    case None
    with Some show ?thesis by (simp add: TopLevelNav_def)
  next
    case ls: (Some ls)
    have "(\<exists>vs. array_map (topLevelLink pathname mobile) 0 ls = Inr vs) \<longleftrightarrow> None \<notin> set ls"
    proof
      assume ok: "\<exists>vs. array_map (topLevelLink pathname mobile) 0 ls = Inr vs"
      show "None \<notin> set ls"
      proof
        assume "None \<in> set ls"
        then have "\<exists>e. array_map (topLevelLink pathname mobile) 0 ls = Inl e"
          by (rule array_map_fails) (simp add: topLevelLink_def)
        with ok show False by auto
      qed
    next
      assume "None \<notin> set ls"
      then have "\<And>x j. x \<in> set ls \<Longrightarrow> \<exists>y. topLevelLink pathname mobile x j = Inr y"
        by (metis topLevelLink_ok)
      then show "\<exists>vs. array_map (topLevelLink pathname mobile) 0 ls = Inr vs"
        by (rule array_map_ok)
    qed
    with Some ls show ?thesis by (simp add: TopLevelNav_def)
  qed
qed

lemma navItem_ok: "(\<exists>v. navItem regExp pathname fb item i = Inr v) \<longleftrightarrow> valid_match regExp item"
  by (auto simp: navItem_def valid_match_def split: option.splits)

lemma navItem_fails: "\<not> valid_match regExp item \<Longrightarrow> \<exists>e. navItem regExp pathname fb item i = Inl e"
  using navItem_ok [of regExp pathname fb item i] by (cases "navItem regExp pathname fb item i") auto

lemma navGroup_ok:
  assumes "pages r g = Some ps"
  shows "(\<exists>gv. navGroup regExp pathname fb r g i = Inr gv) \<longleftrightarrow> (\<forall>p\<in>set ps. valid_match regExp p)"
proof
  assume ok: "\<exists>gv. navGroup regExp pathname fb r g i = Inr gv"
  show "\<forall>p\<in>set ps. valid_match regExp p"
  proof
    fix p assume p: "p \<in> set ps"
    show "valid_match regExp p"
    proof (rule ccontr)
      assume "\<not> valid_match regExp p"
      then have "\<And>j. \<exists>e. navItem regExp pathname fb p j = Inl e" by (rule navItem_fails)
      with p have "\<exists>e. array_map (navItem regExp pathname fb) 0 ps = Inl e"
        by (rule array_map_fails)
      with assms ok show False by (auto simp: navGroup_def)
    qed
  qed
next
  assume "\<forall>p\<in>set ps. valid_match regExp p"
  then have "\<And>x j. x \<in> set ps \<Longrightarrow> \<exists>y. navItem regExp pathname fb x j = Inr y"
    by (simp add: navItem_ok)
  then have "\<exists>vs. array_map (navItem regExp pathname fb) 0 ps = Inr vs" by (rule array_map_ok)
  with assms show "\<exists>gv. navGroup regExp pathname fb r g i = Inr gv"
    by (auto simp: navGroup_def)
qed

lemma Nav_groups_ok:
  "(\<exists>gvs. Nav_groups cfg regExp pathname fb fs n = Inr gvs) \<longleftrightarrow>
     (\<forall>p. nav_contains (filtered cfg fs n) p \<longrightarrow> valid_match regExp p)"
proof -
  let ?r = "filtered cfg fs n"
  have pg: "\<And>g. g \<in> set (groups ?r) \<Longrightarrow> \<exists>ps. pages ?r g = Some ps"
    by (simp add: pages_filtered)
  show ?thesis
  proof
    assume ok: "\<exists>gvs. Nav_groups cfg regExp pathname fb fs n = Inr gvs"
    show "\<forall>p. nav_contains ?r p \<longrightarrow> valid_match regExp p"
    proof (intro allI impI)
      fix p assume "nav_contains ?r p"
      then obtain g ps where g: "g \<in> set (groups ?r)" "pages ?r g = Some ps" "p \<in> set ps"
        by (auto simp: nav_contains_def list_ex_iff split: option.splits)
      show "valid_match regExp p"
      proof (rule ccontr)
        assume "\<not> valid_match regExp p"
        with g have "\<And>j. \<not> (\<exists>gv. navGroup regExp pathname fb ?r g j = Inr gv)"
          by (auto simp: navGroup_ok)
        then have "\<And>j. \<exists>e. navGroup regExp pathname fb ?r g j = Inl e"
          by (metis sum.exhaust)
        with g(1) have "\<exists>e. array_map (navGroup regExp pathname fb ?r) 0 (groups ?r) = Inl e"
          by (rule array_map_fails)
        with ok show False by (auto simp: Nav_groups_def Let_def)
      qed
    qed
  next
    assume all: "\<forall>p. nav_contains ?r p \<longrightarrow> valid_match regExp p"
    have "\<And>g j. g \<in> set (groups ?r) \<Longrightarrow> \<exists>gv. navGroup regExp pathname fb ?r g j = Inr gv"
    proof -
      fix g j assume g: "g \<in> set (groups ?r)"
      from pg [OF g] obtain ps where ps: "pages ?r g = Some ps" by blast
      have "\<forall>p\<in>set ps. valid_match regExp p"
      proof
        fix p assume "p \<in> set ps"
        with g ps have "nav_contains ?r p"
          unfolding nav_contains_def list_ex_iff by (intro bexI [of _ g]) simp_all
        with all show "valid_match regExp p" by blast
      qed
      with ps show "\<exists>gv. navGroup regExp pathname fb ?r g j = Inr gv"
        by (simp add: navGroup_ok)
    qed
    then have "\<exists>gvs. array_map (navGroup regExp pathname fb ?r) 0 (groups ?r) = Inr gvs"
      by (rule array_map_ok)
    then show "\<exists>gvs. Nav_groups cfg regExp pathname fb fs n = Inr gvs"
      by (simp add: Nav_groups_def Let_def)
  qed
qed

text \<open>
  Claim C4, as the code has it. No function of the file handles an error, and some throw:
  \<^verbatim>\<open>nearestScrollableContainer\<close> throws a \<^verbatim>\<open>TypeError\<close> on \<^verbatim>\<open>undefined\<close> and on an element
  that does not scroll and has neither a parent nor a host, and it returns a container on
  every element at or below \<^verbatim>\<open>document.body\<close>; \<^verbatim>\<open>TopLevelNav\<close> completes exactly when
  \<^verbatim>\<open>config.sidebar\<close> is missing or has a \<^verbatim>\<open>links\<close> array without a \<^verbatim>\<open>null\<close> entry; the group
  list of \<^verbatim>\<open>Nav\<close> completes exactly when \<^verbatim>\<open>new RegExp\<close> accepts the \<^verbatim>\<open>meta.match\<close> of every
  page it shows; the layout effect always completes.
\<close>

theorem throwing_conditions:
  "nearestScrollableContainer d None = Some (Inl TypeError) \<and>
   (ancestor d k el = Some (body d) \<and> distinct (ancestors d k el) \<and>
    list_all (isElement d) (ancestors d k el) \<longrightarrow>
      (\<exists>c. nearestScrollableContainer d (Some el) = Some (Inr c))) \<and>
   (el \<noteq> body d \<and> isScrollable d el = Inr False \<and> parentNode d el = None \<and> host d el = None \<longrightarrow>
      nearestScrollableContainer d (Some el) = Some (Inl TypeError)) \<and>
   ((\<exists>vs. TopLevelNav cfg pathname mobile = Inr vs) \<longleftrightarrow>
      (case sidebar cfg of
         None \<Rightarrow> True
       | Some sb \<Rightarrow> (case links sb of None \<Rightarrow> False | Some ls \<Rightarrow> None \<notin> set ls))) \<and>
   ((\<exists>gvs. Nav_groups cfg regExp pathname fb fs n = Inr gvs) \<longleftrightarrow>
      (\<forall>p. nav_contains (filtered cfg fs n) p \<longrightarrow> valid_match regExp p)) \<and>
   (\<exists>d' r'. Nav_layoutEffect d r = Some (Inr (d', r')))"
proof -
  have 1: "nearestScrollableContainer d None = Some (Inl TypeError)" by (rule nsc_undefined)
  have 2: "ancestor d k el = Some (body d) \<and> distinct (ancestors d k el) \<and>
    list_all (isElement d) (ancestors d k el) \<longrightarrow>
      (\<exists>c. nearestScrollableContainer d (Some el) = Some (Inr c))"
    using nsc_descendant [of d k el] by blast
  have 3: "el \<noteq> body d \<and> isScrollable d el = Inr False \<and> parentNode d el = None \<and> host d el = None \<longrightarrow>
      nearestScrollableContainer d (Some el) = Some (Inl TypeError)"
    using nsc_detached [of el d] by blast
  have 4: "\<exists>d' r'. Nav_layoutEffect d r = Some (Inr (d', r'))"
    by (simp add: Nav_layoutEffect_eq)
  from 1 2 3 4 TopLevelNav_ok [of cfg pathname mobile] Nav_groups_ok [of cfg regExp pathname fb fs n]
  show ?thesis by blast
qed

text \<open>The theorem on \<^const>\<open>example_dom\<close> and \<^const>\<open>ordered_config\<close>.\<close>

theorem throwing_conditions_witness:
  "(\<exists>c. nearestScrollableContainer example_dom (Some 3) = Some (Inr c)) \<and>
   nearestScrollableContainer example_dom (Some 7) = Some (Inl TypeError) \<and>
   (\<exists>vs. TopLevelNav ordered_config ''/docs'' False = Inr vs) \<and>
   (\<exists>gvs. Nav_groups ordered_config (\<lambda>pattern. None) ''/docs'' None [] example_nav = Inr gvs)"
proof -
  have a: "ancestor example_dom 2 3 = Some (body example_dom)"
    "distinct (ancestors example_dom 2 3)"
    "list_all (isElement example_dom) (ancestors example_dom 2 3)"
    by code_simp+
  have b: "7 \<noteq> body example_dom" "isScrollable example_dom 7 = Inr False"
    "parentNode example_dom 7 = None" "host example_dom 7 = None"
    by code_simp+
  have c: "(case sidebar ordered_config of
         None \<Rightarrow> True
       | Some sb \<Rightarrow> (case links sb of None \<Rightarrow> False | Some ls \<Rightarrow> None \<notin> set ls))"
    by code_simp
  have v: "valid_match (\<lambda>pattern. None) page_intro" "valid_match (\<lambda>pattern. None) page_about"
    "valid_match (\<lambda>pattern. None) page_draft"
    by code_simp+
  have "allPages example_nav = [page_intro, page_about, page_draft]" by code_simp
  then have e: "\<forall>p. nav_contains (filtered ordered_config [] example_nav) p \<longrightarrow>
      valid_match (\<lambda>pattern. None) p"
    using v by (auto simp: nav_contains_filtered matchPages_spec)
  from throwing_conditions [of example_dom 2 3 ordered_config "''/docs''" False
      "\<lambda>pattern. None" None "[]" example_nav example_refs]
    throwing_conditions [of example_dom 0 7 ordered_config "''/docs''" False
      "\<lambda>pattern. None" None "[]" example_nav example_refs]
    a b c e
  show ?thesis by blast
qed

text \<open>Claim C4 as stated fails: \<^verbatim>\<open>nearestScrollableContainer\<close> throws on the detached
  element 7 and on \<^verbatim>\<open>undefined\<close>, and \<^verbatim>\<open>TopLevelNav\<close> throws under a configuration whose
  sidebar has no \<^verbatim>\<open>links\<close>.\<close>

theorem throwing_counterexample:
  "nearestScrollableContainer example_dom (Some 7) = Some (Inl TypeError) \<and>
   nearestScrollableContainer example_dom None = Some (Inl TypeError) \<and>
   TopLevelNav linkless_config ''/docs'' False = Inl TypeError"
proof -
  have "nearestScrollableContainer example_dom (Some 7) = Some (Inl TypeError)"
    by (rule nsc_detached) (simp_all add: example_dom_def isScrollable_def)
  moreover have "TopLevelNav linkless_config ''/docs'' False = Inl TypeError"
    by code_simp
  ultimately show ?thesis by (simp add: nsc_undefined)
qed

section \<open>The drawer and the quick search input\<close>

text \<open>
  Claim C3: the dialog is open exactly when \<^verbatim>\<open>navIsOpen\<close> is true; dismissing the dialog
  and clicking the close button both call \<^verbatim>\<open>setNavIsOpen\<close> with \<^verbatim>\<open>false\<close>, and do nothing
  when there is no \<^verbatim>\<open>setNavIsOpen\<close>; the desktop sidebar does not depend on \<^verbatim>\<open>navIsOpen\<close>.
\<close>

theorem SidebarLayout_drawer:
  "dialog_open (SidebarLayout props) = navIsOpen props \<and>
   dialog_onClose (SidebarLayout props) s =
     (case setNavIsOpen props of None \<Rightarrow> s | Some f \<Rightarrow> f False s) \<and>
   button_onClick (SidebarLayout props) s =
     (case setNavIsOpen props of None \<Rightarrow> s | Some f \<Rightarrow> f False s) \<and>
   desktop_nav (SidebarLayout (props\<lparr> navIsOpen := b \<rparr>)) = desktop_nav (SidebarLayout props)"
  by (simp add: SidebarLayout_def optional_call_def)

text \<open>The theorem on \<^const>\<open>example_props\<close>, whose owner stores the value it is given:
  either handler closes the open drawer.\<close>

theorem SidebarLayout_drawer_witness:
  "dialog_open (SidebarLayout example_props) \<and>
   dialog_onClose (SidebarLayout example_props) True = False \<and>
   button_onClick (SidebarLayout example_props) True = False \<and>
   dialog_onClose (SidebarLayout (example_props\<lparr> setNavIsOpen := None \<rparr>)) True = True \<and>
   desktop_nav (SidebarLayout (example_props\<lparr> navIsOpen := False \<rparr>)) =
     desktop_nav (SidebarLayout example_props)"
  using SidebarLayout_drawer [of example_props True False]
    SidebarLayout_drawer [of "example_props\<lparr> setNavIsOpen := None \<rparr>" True False]
  by (simp add: example_props_def)

text \<open>
  Claim C5: on a change event, \<^verbatim>\<open>handleChange\<close>, which is the \<^verbatim>\<open>onChange\<close> handler of the quick
  search input whenever the input is rendered, changes the search state as its setter
  does for exactly the value of the input, the empty string taking the place of a nullish
  value.
\<close>

theorem handleChange_sets_filter:
  "handleChange setFilter e s = setFilter (case target_value e of None \<Rightarrow> [] | Some v \<Rightarrow> v) s \<and>
   (DynamicSearchButton_onChange cfg setFilter = Some onChange \<longrightarrow>
      onChange e s = setFilter (case target_value e of None \<Rightarrow> [] | Some v \<Rightarrow> v) s)"
  by (cases "target_value e")
    (auto simp: DynamicSearchButton_onChange_def handleChange_def split: if_splits)

text \<open>The theorem under \<^const>\<open>plain_config\<close>, which renders the input, with a setter that
  stores the string: after the event the shared filter is the value of the input, and the
  empty string when there is no value.\<close>

theorem handleChange_sets_filter_witness:
  "DynamicSearchButton_onChange plain_config store_filter = Some (handleChange store_filter) \<and>
   search_filter (handleChange store_filter \<lparr> target_value = Some ''intro'' \<rparr> \<lparr> search_filter = ''x'' \<rparr>) = ''intro'' \<and>
   search_filter (handleChange store_filter \<lparr> target_value = None \<rparr> \<lparr> search_filter = ''x'' \<rparr>) = []"
proof -
  have a: "DynamicSearchButton_onChange plain_config store_filter = Some (handleChange store_filter)"
    by (simp add: DynamicSearchButton_onChange_def plain_config_def)
  from handleChange_sets_filter [of store_filter "\<lparr> target_value = Some ''intro'' \<rparr>"
      "\<lparr> search_filter = ''x'' \<rparr>" plain_config "handleChange store_filter"]
    handleChange_sets_filter [of store_filter "\<lparr> target_value = None \<rparr>"
      "\<lparr> search_filter = ''x'' \<rparr>" plain_config "handleChange store_filter"]
    a
  show ?thesis by (simp add: store_filter_def)
qed

end
